theory Spec2Isabelle
  imports Main "HOL-Library.List_Lexorder" "HOL-Library.Char_ord"
begin

text \<open>
  The repository has its backup script twice: \<^verbatim>\<open>src/scripts/backup.js\<close>, whose
  \<^verbatim>\<open>loadBackup\<close> inserts and deletes documents, and a second copy, \<^verbatim>\<open>unnamed/part_000\<close>,
  whose \<^verbatim>\<open>loadBackup\<close> updates documents as well. The names below are those of the second
  copy; the ones ending in \<open>_scripts\<close> are those of \<^verbatim>\<open>src/scripts/backup.js\<close>. The two
  copies are the same up to the body of the loop over the collection files.
\<close>

section \<open>Values and documents\<close>

text \<open>
  The backup scripts handle two kinds of JavaScript values: what \<^verbatim>\<open>fs.readJson\<close> parses from
  a snapshot file (null, booleans, numbers, strings, arrays, objects) and what the MongoDB
  driver returns from \<^verbatim>\<open>collection.find().toArray()\<close>, where a value may also be a native
  \<^verbatim>\<open>ObjectId\<close>. Numbers are the integer-valued ones. An object is the list of its own
  properties in enumeration order; \<^verbatim>\<open>undefined\<close> is \<open>None\<close> of an option type.
\<close>

datatype json =
    JNull
  | JBool bool
  | JNum int
  | JStr string
  | JOid string
  | JArr "json list"
  | JObj "(string \<times> json) list"

type_synonym doc = "(string \<times> json) list"

subsection \<open>\<^verbatim>\<open>String(n)\<close>, \<^verbatim>\<open>padStart\<close>, \<^verbatim>\<open>startsWith\<close>\<close>

definition digitChar :: "nat \<Rightarrow> char" where
  "digitChar d = ''0123456789'' ! d"

function digits :: "nat \<Rightarrow> string" where
  "digits n = (if n < 10 then [digitChar n] else digits (n div 10) @ [digitChar (n mod 10)])"
  by pat_completeness auto
termination
  by (relation "measure id") auto

definition String_int :: "int \<Rightarrow> string" where
  "String_int i = (if i < 0 then ''-'' @ digits (nat (- i)) else digits (nat i))"

definition padStart :: "nat \<Rightarrow> char \<Rightarrow> string \<Rightarrow> string" where
  "padStart targetLength c s = replicate (targetLength - length s) c @ s"

definition startsWith :: "string \<Rightarrow> string \<Rightarrow> bool" where
  "startsWith s p = (take (length p) s = p)"

subsection \<open>\<^verbatim>\<open>toString\<close> and \<^verbatim>\<open>JSON.stringify\<close>\<close>

fun joinComma :: "string list \<Rightarrow> string" where
  "joinComma [] = []"
| "joinComma [x] = x"
| "joinComma (x # y # ys) = x @ '','' @ joinComma (y # ys)"

text \<open>
  \<^verbatim>\<open>v.toString()\<close> for a value that is neither \<^verbatim>\<open>null\<close> nor \<^verbatim>\<open>undefined\<close>: a string is
  itself, an \<^verbatim>\<open>ObjectId\<close> its hexadecimal form, an array the comma-joined strings of its
  elements (\<^verbatim>\<open>null\<close> elements give the empty string), a plain object
  \<^verbatim>\<open>[object Object]\<close>.
\<close>

fun toString :: "json \<Rightarrow> string" where
  "toString JNull = ''null''"
| "toString (JBool b) = (if b then ''true'' else ''false'')"
| "toString (JNum n) = String_int n"
| "toString (JStr s) = s"
| "toString (JOid h) = h"
| "toString (JArr xs) = joinComma (map (\<lambda>x. if x = JNull then [] else toString x) xs)"
| "toString (JObj fs) = ''[object Object]''"

text \<open>
  \<^verbatim>\<open>JSON.stringify\<close> is modelled up to lexing: its result is the sequence of JSON tokens
  of the text it writes (two texts are equal exactly when their token sequences are). An
  \<^verbatim>\<open>ObjectId\<close> is written through its \<^verbatim>\<open>toJSON\<close>, as the string of its hexadecimal form.
\<close>

datatype tok = TNull | TBool bool | TNum int | TStr string
  | TLBrack | TRBrack | TLBrace | TRBrace | TComma | TColon

fun commaSep :: "tok list list \<Rightarrow> tok list" where
  "commaSep [] = []"
| "commaSep [x] = x"
| "commaSep (x # y # ys) = x @ TComma # commaSep (y # ys)"

fun stringify :: "json \<Rightarrow> tok list" where
  "stringify JNull = [TNull]"
| "stringify (JBool b) = [TBool b]"
| "stringify (JNum n) = [TNum n]"
| "stringify (JStr s) = [TStr s]"
| "stringify (JOid h) = [TStr h]"
| "stringify (JArr xs) = TLBrack # commaSep (map stringify xs) @ [TRBrack]"
| "stringify (JObj fs) =
     TLBrace # commaSep (map (\<lambda>(k, v). TStr k # TColon # stringify v) fs) @ [TRBrace]"

text \<open>The JSON image of a value: what a snapshot file keeps of it.\<close>

fun toJSON :: "json \<Rightarrow> json" where
  "toJSON (JOid h) = JStr h"
| "toJSON (JArr xs) = JArr (map toJSON xs)"
| "toJSON (JObj fs) = JObj (map (\<lambda>(k, v). (k, toJSON v)) fs)"
| "toJSON v = v"

fun opener :: "tok \<Rightarrow> bool" where
  "opener TRBrack = False"
| "opener TRBrace = False"
| "opener TComma = False"
| "opener TColon = False"
| "opener _ = True"

subsection \<open>Property access on documents\<close>

text \<open>\<^verbatim>\<open>doc._id\<close>: the value of the property, \<open>None\<close> when the document has none.\<close>

definition get_id :: "doc \<Rightarrow> json option" where
  "get_id d = map_of d ''_id''"

text \<open>\<^verbatim>\<open>doc._id?.toString()\<close>: \<^verbatim>\<open>undefined\<close> when \<^verbatim>\<open>_id\<close> is \<^verbatim>\<open>undefined\<close> or \<^verbatim>\<open>null\<close>.\<close>

definition idString :: "doc \<Rightarrow> string option" where
  "idString d =
     (case get_id d of None \<Rightarrow> None | Some JNull \<Rightarrow> None | Some v \<Rightarrow> Some (toString v))"

text \<open>\<^verbatim>\<open>.filter(Boolean)\<close> on an array of strings and \<^verbatim>\<open>undefined\<close>: drops \<^verbatim>\<open>undefined\<close>
  and the empty string.\<close>

definition filterBoolean :: "string option list \<Rightarrow> string list" where
  "filterBoolean xs =
     concat (map (\<lambda>x. case x of None \<Rightarrow> [] | Some s \<Rightarrow> if s = [] then [] else [s]) xs)"

text \<open>\<^verbatim>\<open>ids.includes(x)\<close> on an array of strings: \<^verbatim>\<open>undefined\<close> is never included.\<close>

definition includes_str :: "string list \<Rightarrow> string option \<Rightarrow> bool" where
  "includes_str ids x = (case x of None \<Rightarrow> False | Some s \<Rightarrow> s \<in> set ids)"

text \<open>\<^verbatim>\<open>const { _id, ...fields } = doc\<close>: the other properties, in order.\<close>

definition fieldsOf :: "doc \<Rightarrow> doc" where
  "fieldsOf d = filter (\<lambda>(k, v). k \<noteq> ''_id'') d"

section \<open>The document store\<close>

text \<open>
  The operations the scripts issue on a collection, with the collection's name:
  \<^verbatim>\<open>insertMany(docs)\<close>, \<^verbatim>\<open>deleteMany({ _id: { $in: ids } })\<close> and
  \<^verbatim>\<open>updateOne({ _id: queryId }, { $set: fields })\<close>.
\<close>

datatype op =
    InsertMany string "doc list"
  | DeleteMany string "json option list"
  | UpdateOne string "json option" doc

text \<open>
  The store itself is MongoDB, outside the repository. Its model here: a collection is the
  list of its documents; an \<^verbatim>\<open>undefined\<close> in a query is sent as \<^verbatim>\<open>null\<close>, which also
  matches a missing field.

  \<^verbatim>\<open>insertMany\<close> appends the documents. A stored document has \<^verbatim>\<open>_id\<close> as its first
  field, followed by the other fields in the order given; a document given without
  \<^verbatim>\<open>_id\<close>, or with \<^verbatim>\<open>null\<close> for it, is stored with the identifier the driver generates
  for it (\<open>createPk\<close>, a parameter of the store: a function of the documents the
  collection holds at that moment). The driver writes a generated identifier into the
  object it was given as well; the imported documents are kept here as they were read,
  which makes a difference for the update of an imported document without \<^verbatim>\<open>_id\<close> only
  (there is such an update only when a live document has no identifier either).

  \<^verbatim>\<open>deleteMany\<close> removes every document whose \<^verbatim>\<open>_id\<close> is in the list. \<^verbatim>\<open>updateOne\<close>
  changes the first document whose \<^verbatim>\<open>_id\<close> equals the query's; \<^verbatim>\<open>$set\<close> takes the fields
  in the lexicographic order of their names, replaces the value of a field the document
  has, in place, and appends a field it has not. This is \<^verbatim>\<open>$set\<close> for plain field names:
  a name with a dot addresses a field of an embedded document, a name that starts with
  \<^verbatim>\<open>$\<close> is refused, and recent servers take names made of digits in numeric order.
  Identifiers are plain values (\<^verbatim>\<open>null\<close>, numbers, strings, \<^verbatim>\<open>ObjectId\<close>s), compared as
  such. The store accepts every operation.
\<close>

definition bsonId :: "json option \<Rightarrow> json" where
  "bsonId x = (case x of None \<Rightarrow> JNull | Some v \<Rightarrow> v)"

definition storedDoc :: "json \<Rightarrow> doc \<Rightarrow> doc" where
  "storedDoc pk d =
     (''_id'', case get_id d of None \<Rightarrow> pk | Some JNull \<Rightarrow> pk | Some v \<Rightarrow> v) # fieldsOf d"

fun insertMany :: "(doc list \<Rightarrow> json) \<Rightarrow> doc list \<Rightarrow> doc list \<Rightarrow> doc list" where
  "insertMany pk [] c = c"
| "insertMany pk (d # docs) c = insertMany pk docs (c @ [storedDoc (pk c) d])"

definition deleteMany :: "json option list \<Rightarrow> doc list \<Rightarrow> doc list" where
  "deleteMany ids c = filter (\<lambda>d. bsonId (get_id d) \<notin> set (map bsonId ids)) c"

fun setField :: "string \<Rightarrow> json \<Rightarrow> doc \<Rightarrow> doc" where
  "setField k v [] = [(k, v)]"
| "setField k v (p # ps) = (if fst p = k then (k, v) # ps else p # setField k v ps)"

fun setFields :: "doc \<Rightarrow> doc \<Rightarrow> doc" where
  "setFields [] d = d"
| "setFields ((k, v) # fields) d = setFields fields (setField k v d)"

definition applySet :: "doc \<Rightarrow> doc \<Rightarrow> doc" where
  "applySet fields d = setFields (sort_key fst fields) d"

fun updateOne :: "json option \<Rightarrow> doc \<Rightarrow> doc list \<Rightarrow> doc list" where
  "updateOne q fields [] = []"
| "updateOne q fields (d # ds) =
     (if bsonId (get_id d) = bsonId q then applySet fields d # ds
      else d # updateOne q fields ds)"

fun applyOp :: "(doc list \<Rightarrow> json) \<Rightarrow> op \<Rightarrow> (string \<Rightarrow> doc list) \<Rightarrow> (string \<Rightarrow> doc list)" where
  "applyOp pk (InsertMany c docs) db = db(c := insertMany pk docs (db c))"
| "applyOp pk (DeleteMany c ids) db = db(c := deleteMany ids (db c))"
| "applyOp pk (UpdateOne c q fields) db = db(c := updateOne q fields (db c))"

text \<open>
  What a run works on: the collections of the store, the operations issued so far, in
  order, the lines written by \<^verbatim>\<open>console.log\<close>, and the store's generator of identifiers.
\<close>

record state =
  colls :: "string \<Rightarrow> doc list"
  issued :: "op list"
  logged :: "string list"
  createPk :: "doc list \<Rightarrow> json"

definition console_log :: "string \<Rightarrow> state \<Rightarrow> state" where
  "console_log line st = st\<lparr>logged := logged st @ [line]\<rparr>"

definition exec :: "op \<Rightarrow> state \<Rightarrow> state" where
  "exec o1 st = st\<lparr>colls := applyOp (createPk st) o1 (colls st), issued := issued st @ [o1]\<rparr>"

text \<open>
  \<^verbatim>\<open>ObjectId.isValid\<close> and \<^verbatim>\<open>new ObjectId\<close> belong to the \<^verbatim>\<open>mongodb\<close> package, whose
  version the repository does not fix: they are parameters of the model.
\<close>

record bson =
  isValid :: "json option \<Rightarrow> bool"
  ObjectId :: "json option \<Rightarrow> json"

section \<open>Reconciling one collection\<close>

text \<open>Lines 62 and 63 of \<^verbatim>\<open>part_000\<close>; the same as lines 61 and 62 of
  \<^verbatim>\<open>src/scripts/backup.js\<close>.\<close>

definition newIds :: "doc list \<Rightarrow> string list" where
  "newIds newData = filterBoolean (map idString newData)"

definition existingIds :: "doc list \<Rightarrow> string list" where
  "existingIds existingData = filterBoolean (map idString existingData)"

subsection \<open>The second copy (\<^verbatim>\<open>part_000\<close>): inserts, deletes and updates\<close>

definition toInsert :: "doc list \<Rightarrow> doc list \<Rightarrow> doc list" where
  "toInsert newData existingData =
     filter (\<lambda>doc. \<not> includes_str (existingIds existingData) (idString doc)) newData"

definition toDelete :: "doc list \<Rightarrow> doc list \<Rightarrow> doc list" where
  "toDelete newData existingData =
     filter (\<lambda>doc. \<not> includes_str (newIds newData) (idString doc)) existingData"

definition toUpdate :: "doc list \<Rightarrow> doc list \<Rightarrow> doc list" where
  "toUpdate newData existingData =
     filter (\<lambda>newDoc.
       case find (\<lambda>e. idString e = idString newDoc) existingData of
         None \<Rightarrow> False
       | Some match \<Rightarrow> stringify (JObj match) \<noteq> stringify (JObj newDoc)) newData"

definition queryId :: "bson \<Rightarrow> json option \<Rightarrow> json option" where
  "queryId lib x = (if isValid lib x then Some (ObjectId lib x) else x)"

definition updateFor :: "bson \<Rightarrow> string \<Rightarrow> doc \<Rightarrow> op" where
  "updateFor lib collectionName d =
     UpdateOne collectionName (queryId lib (get_id d)) (fieldsOf d)"

definition quote :: char where
  "quote = CHR 0x27"

definition loadCollection :: "bson \<Rightarrow> string \<Rightarrow> doc list \<Rightarrow> state \<Rightarrow> state" where
  "loadCollection lib collectionName newData st =
     (let existingData = colls st collectionName;
          ins = toInsert newData existingData;
          del = toDelete newData existingData;
          upd = toUpdate newData existingData
      in if length ins = 0 \<and> length del = 0 \<and> length upd = 0
         then console_log (''Collection '' @ [quote] @ collectionName @ [quote]
                @ '' is already up-to-date'') st
         else
           let st1 = (if length ins > 0 then exec (InsertMany collectionName ins) st else st);
               st2 = (if length del > 0
                      then exec (DeleteMany collectionName (map get_id del)) st1 else st1);
               st3 = foldl (\<lambda>s d. exec (updateFor lib collectionName d) s) st2 upd
           in console_log (''Updated '' @ [quote] @ collectionName @ [quote]
                @ '': inserted '' @ digits (length ins)
                @ '', updated '' @ digits (length upd)
                @ '', deleted '' @ digits (length del)) st3)"

subsection \<open>\<^verbatim>\<open>src/scripts/backup.js\<close>: inserts and deletes\<close>

definition toInsert_scripts :: "doc list \<Rightarrow> doc list \<Rightarrow> doc list" where
  "toInsert_scripts newData existingData =
     filter (\<lambda>doc. \<not> includes_str (existingIds existingData) (idString doc)) newData"

definition toDelete_scripts :: "doc list \<Rightarrow> doc list \<Rightarrow> doc list" where
  "toDelete_scripts newData existingData =
     filter (\<lambda>doc. \<not> includes_str (newIds newData) (idString doc)) existingData"

definition loadCollection_scripts :: "string \<Rightarrow> doc list \<Rightarrow> state \<Rightarrow> state" where
  "loadCollection_scripts collectionName newData st =
     (let existingData = colls st collectionName;
          ins = toInsert_scripts newData existingData;
          del = toDelete_scripts newData existingData
      in if length ins = 0 \<and> length del = 0
         then console_log (''Collection '' @ [quote] @ collectionName @ [quote]
                @ '' is already up-to-date'') st
         else
           let st1 = (if length ins > 0 then exec (InsertMany collectionName ins) st else st);
               st2 = (if length del > 0
                      then exec (DeleteMany collectionName (map get_id del)) st1 else st1)
           in console_log (''Updated collection '' @ [quote] @ collectionName @ [quote]
                @ '': inserted '' @ digits (length ins)
                @ '', deleted '' @ digits (length del)) st2)"

section \<open>The file system and \<^verbatim>\<open>loadBackup\<close>\<close>

datatype error = IOError string | JSONError string

record dirent =
  name :: string
  isDirectory :: bool

text \<open>
  The file system as the scripts see it: the working directory, \<^verbatim>\<open>fs.readdir\<close> with and
  without \<^verbatim>\<open>withFileTypes\<close>, and \<^verbatim>\<open>fs.readJson\<close>, whose result is the array of documents
  of the file or the error it rejects with.
\<close>

record fsys =
  cwd :: string
  readdirTypes :: "string \<Rightarrow> error + dirent list"
  readdir :: "string \<Rightarrow> error + string list"
  readJson :: "string \<Rightarrow> error + doc list"

text \<open>\<^verbatim>\<open>path.join\<close>, \<^verbatim>\<open>path.extname\<close> and \<^verbatim>\<open>path.basename\<close> on POSIX, for a directory and the
  names \<^verbatim>\<open>readdir\<close> returns (no separator in a name).\<close>

definition path_join :: "string \<Rightarrow> string \<Rightarrow> string" where
  "path_join dir file = dir @ ''/'' @ file"

definition extname :: "string \<Rightarrow> string" where
  "extname file =
     (if CHR ''.'' \<in> set file
      then let i = length file - Suc (length (takeWhile (\<lambda>c. c \<noteq> CHR ''.'') (rev file)))
           in if i = 0 \<or> file = ''..'' then [] else drop i file
      else [])"

definition basename :: "string \<Rightarrow> string \<Rightarrow> string" where
  "basename file ext =
     (if ext \<noteq> [] \<and> length ext \<le> length file
         \<and> drop (length file - length ext) file = ext
      then take (length file - length ext) file else file)"

text \<open>\<^verbatim>\<open>if (!baseDir) baseDir = path.resolve('./backup')\<close> and the names kept from the
  listing of the base directory.\<close>

definition resolveBaseDir :: "fsys \<Rightarrow> string option \<Rightarrow> string" where
  "resolveBaseDir fs baseDir =
     (case baseDir of None \<Rightarrow> path_join (cwd fs) ''backup''
      | Some b \<Rightarrow> if b = [] then path_join (cwd fs) ''backup'' else b)"

definition backupDirsOf :: "dirent list \<Rightarrow> string list" where
  "backupDirsOf entries =
     map name (filter (\<lambda>dirent. isDirectory dirent
       \<and> startsWith (name dirent) ''backup_'') entries)"

text \<open>The loop over the files of the snapshot directory, around the body for one
  collection.\<close>

fun forFiles :: "(string \<Rightarrow> doc list \<Rightarrow> state \<Rightarrow> state) \<Rightarrow> fsys \<Rightarrow> string \<Rightarrow> string list
    \<Rightarrow> state \<Rightarrow> (error + unit) \<times> state" where
  "forFiles body fs backupDir [] st = (Inr (), st)"
| "forFiles body fs backupDir (file # files) st =
     (if extname file \<noteq> ''.json'' then forFiles body fs backupDir files st
      else
        let collectionName = basename file ''.json'' in
        case readJson fs (path_join backupDir file) of
          Inl e \<Rightarrow> (Inl e, st)
        | Inr newData \<Rightarrow> forFiles body fs backupDir files (body collectionName newData st))"

definition loadBackup_with :: "(string \<Rightarrow> doc list \<Rightarrow> state \<Rightarrow> state) \<Rightarrow> fsys
    \<Rightarrow> string option \<Rightarrow> state \<Rightarrow> (error + unit) \<times> state" where
  "loadBackup_with body fs baseDir0 st =
     (let baseDir = resolveBaseDir fs baseDir0
      in case readdirTypes fs baseDir of
           Inl e \<Rightarrow> (Inl e, st)
         | Inr entries \<Rightarrow>
             let backupDirs = backupDirsOf entries
             in if length backupDirs = 0 then (Inr (), console_log ''No backups found.'' st)
                else
                  let sorted = sort backupDirs;
                      backupDir = path_join baseDir (sorted ! (length sorted - 1));
                      st1 = console_log (''Loading latest backup: '' @ backupDir) st
                  in (case readdir fs backupDir of
                        Inl e \<Rightarrow> (Inl e, st1)
                      | Inr files \<Rightarrow> forFiles body fs backupDir files st1))"

text \<open>\<^verbatim>\<open>loadBackup\<close> of \<^verbatim>\<open>part_000\<close> and of \<^verbatim>\<open>src/scripts/backup.js\<close>.\<close>

definition loadBackup :: "bson \<Rightarrow> fsys \<Rightarrow> string option \<Rightarrow> state \<Rightarrow> (error + unit) \<times> state" where
  "loadBackup lib = loadBackup_with (loadCollection lib)"

definition loadBackup_scripts :: "fsys \<Rightarrow> string option \<Rightarrow> state \<Rightarrow> (error + unit) \<times> state" where
  "loadBackup_scripts = loadBackup_with loadCollection_scripts"

section \<open>Snapshot names\<close>

text \<open>The local date and time a \<^verbatim>\<open>Date\<close> gives through its getters.\<close>

record date =
  getFullYear :: nat
  getMonth :: nat
  getDate :: nat
  getHours :: nat
  getMinutes :: nat
  getSeconds :: nat

definition getTimestamp :: "date \<Rightarrow> string" where
  "getTimestamp now =
     (let mm = padStart 2 (CHR ''0'') (digits (getMonth now + 1));
          dd = padStart 2 (CHR ''0'') (digits (getDate now));
          yyyy = digits (getFullYear now);
          hh = padStart 2 (CHR ''0'') (digits (getHours now));
          mi = padStart 2 (CHR ''0'') (digits (getMinutes now));
          ss = padStart 2 (CHR ''0'') (digits (getSeconds now))
      in ''backup_'' @ mm @ dd @ yyyy @ ''_'' @ hh @ mi @ ss)"

text \<open>\<^verbatim>\<open>String(n).padStart(2, '0')\<close>, and the ranges of the getters of a \<^verbatim>\<open>Date\<close>.\<close>

definition pad2 :: "nat \<Rightarrow> string" where
  "pad2 n = padStart 2 (CHR ''0'') (digits n)"

definition validTime :: "date \<Rightarrow> bool" where
  "validTime d \<longleftrightarrow> getMonth d < 12 \<and> 1 \<le> getDate d \<and> getDate d \<le> 31 \<and> getHours d < 24
     \<and> getMinutes d < 60 \<and> getSeconds d < 60"

text \<open>One local instant is before another.\<close>

definition before :: "date \<Rightarrow> date \<Rightarrow> bool" where
  "before a b =
     (getFullYear a < getFullYear b \<or> getFullYear a = getFullYear b \<and>
      (getMonth a < getMonth b \<or> getMonth a = getMonth b \<and>
       (getDate a < getDate b \<or> getDate a = getDate b \<and>
        (getHours a < getHours b \<or> getHours a = getHours b \<and>
         (getMinutes a < getMinutes b \<or> getMinutes a = getMinutes b \<and>
          getSeconds a < getSeconds b)))))"

section \<open>Notions the properties are stated with\<close>

text \<open>The operations one collection's classification leads to, in the order of issue.\<close>

definition opsFor :: "bson \<Rightarrow> string \<Rightarrow> doc list \<Rightarrow> doc list \<Rightarrow> doc list \<Rightarrow> op list" where
  "opsFor lib collectionName ins del upd =
     (if ins = [] then [] else [InsertMany collectionName ins])
     @ (if del = [] then [] else [DeleteMany collectionName (map get_id del)])
     @ map (updateFor lib collectionName) upd"

text \<open>The documents of a set that bear the identifier \<open>i\<close> (in its string form).\<close>

definition withId :: "string \<Rightarrow> doc list \<Rightarrow> doc list" where
  "withId i docs = filter (\<lambda>d. idString d = Some i) docs"

text \<open>A document has an identifier for the scripts when the string form of its \<^verbatim>\<open>_id\<close>
  passes \<^verbatim>\<open>filter(Boolean)\<close>.\<close>

definition hasId :: "doc \<Rightarrow> bool" where
  "hasId d = (case idString d of None \<Rightarrow> False | Some s \<Rightarrow> s \<noteq> [])"

text \<open>The JSON image of a document, and its content without the identifier.\<close>

definition docJSON :: "doc \<Rightarrow> doc" where
  "docJSON d = map (\<lambda>(k, v). (k, toJSON v)) d"

definition content :: "doc \<Rightarrow> doc" where
  "content d = docJSON (fieldsOf d)"

definition isUpdate :: "op \<Rightarrow> bool" where
  "isUpdate o1 = (case o1 of UpdateOne c q f \<Rightarrow> True | _ \<Rightarrow> False)"

text \<open>One \<^verbatim>\<open>updateOne\<close> of the update loop, as a change of the collection.\<close>

definition stepUpdate :: "bson \<Rightarrow> doc list \<Rightarrow> doc \<Rightarrow> doc list" where
  "stepUpdate lib c d = updateOne (queryId lib (get_id d)) (fieldsOf d) c"

text \<open>What the update loop makes of a document of the collection: the fields of the first
  document of \<open>upd\<close> with its identifier are set on it.\<close>

definition updated :: "doc list \<Rightarrow> doc \<Rightarrow> doc" where
  "updated upd d =
     (case find (\<lambda>s. idString s = idString d) upd of
        None \<Rightarrow> d | Some s \<Rightarrow> applySet (fieldsOf s) d)"

text \<open>A document as \<^verbatim>\<open>insertMany\<close> stores it: \<^verbatim>\<open>_id\<close> is its first field, and only that
  one.\<close>

definition idFirst :: "doc \<Rightarrow> bool" where
  "idFirst d = (case d of [] \<Rightarrow> False | p # ps \<Rightarrow> fst p = ''_id'' \<and> ''_id'' \<notin> set (map fst ps))"

text \<open>The field names for which \<^verbatim>\<open>$set\<close> is the setting of a field of the document, in
  the lexicographic order of the names.\<close>

definition plainName :: "string \<Rightarrow> bool" where
  "plainName k \<longleftrightarrow> k \<noteq> [] \<and> CHR ''.'' \<notin> set k \<and> \<not> startsWith k ''$''
     \<and> \<not> list_all (\<lambda>c. c \<in> set ''0123456789'') k"

text \<open>
  An imported document \<open>s\<close> and a live document \<open>l\<close> are aligned when the update issued
  for \<open>s\<close> makes \<open>l\<close> serialise as \<open>s\<close> does: the query identifier of the update is the
  stored identifier of \<open>l\<close>; the field names of \<open>l\<close> are the first field names of \<open>s\<close>, in
  the same order; the further fields of \<open>s\<close>, which the update appends, are in the
  lexicographic order of their names; the field names of \<open>s\<close> are distinct and, but for
  \<^verbatim>\<open>_id\<close>, plain; and the two identifiers have the same JSON image.
\<close>

definition aligned :: "bson \<Rightarrow> doc \<Rightarrow> doc \<Rightarrow> bool" where
  "aligned lib s l \<longleftrightarrow>
     bsonId (queryId lib (get_id s)) = bsonId (get_id l)
     \<and> take (length l) (map fst s) = map fst l
     \<and> sorted (drop (length l) (map fst s))
     \<and> distinct (map fst s)
     \<and> list_all plainName (map fst (fieldsOf s))
     \<and> map_option toJSON (get_id s) = map_option toJSON (get_id l)"

text \<open>
  An operation reaches a live document when it inserts a document of its identifier,
  deletes by its \<^verbatim>\<open>_id\<close>, or updates by its \<^verbatim>\<open>_id\<close>.
\<close>

fun reaches :: "doc \<Rightarrow> op \<Rightarrow> bool" where
  "reaches l (InsertMany c docs) = list_ex (\<lambda>d. idString d = idString l) docs"
| "reaches l (DeleteMany c ids) = (bsonId (get_id l) \<in> set (map bsonId ids))"
| "reaches l (UpdateOne c q f) = (bsonId q = bsonId (get_id l))"

text \<open>
  The coercion of the update loop keeps the identifier of a document when the
  \<^verbatim>\<open>ObjectId\<close> made of a valid \<^verbatim>\<open>_id\<close> has the string form of that \<^verbatim>\<open>_id\<close>.
\<close>

definition keepsId :: "bson \<Rightarrow> doc \<Rightarrow> bool" where
  "keepsId lib d \<longleftrightarrow>
     \<not> isValid lib (get_id d) \<or> Some (toString (ObjectId lib (get_id d))) = idString d"

section \<open>Example data\<close>

text \<open>The documents, the mocked store and the mocked file system of the repository's
  \<^verbatim>\<open>backupTest.spec.js\<close>.\<close>

definition johnDoe :: doc where
  "johnDoe = [(''_id'', JStr ''1''), (''name'', JStr ''John Doe''), (''age'', JNum 25)]"

definition johnDoe26 :: doc where
  "johnDoe26 = [(''_id'', JStr ''1''), (''name'', JStr ''John Doe''), (''age'', JNum 26)]"

definition janeSmith :: doc where
  "janeSmith = [(''_id'', JStr ''2''), (''name'', JStr ''Jane Smith''), (''age'', JNum 28)]"

definition appointmentA1 :: doc where
  "appointmentA1 =
     [(''_id'', JStr ''A1''), (''patientId'', JStr ''1''), (''date'', JStr ''2025-10-28'')]"

definition existingPatients :: "doc list" where
  "existingPatients = [johnDoe]"

definition existingAppointments :: "doc list" where
  "existingAppointments = [appointmentA1]"

text \<open>A generator of identifiers for the examples: the \<^verbatim>\<open>ObjectId\<close> whose digits count the
  documents of the collection.\<close>

definition countPk :: "doc list \<Rightarrow> json" where
  "countPk c = JOid (padStart 24 (CHR ''0'') (digits (length c)))"

definition mockCollections :: state where
  "mockCollections =
     \<lparr>colls = (\<lambda>c. if c = ''patients'' then existingPatients
                   else if c = ''appointments'' then existingAppointments else []),
      issued = [], logged = [], createPk = countPk\<rparr>"

definition mockFs :: "dirent list \<Rightarrow> string list \<Rightarrow> (string \<Rightarrow> error + doc list) \<Rightarrow> fsys" where
  "mockFs entries files rj =
     \<lparr>cwd = ''/app'', readdirTypes = (\<lambda>dir. Inr entries), readdir = (\<lambda>dir. Inr files),
      readJson = rj\<rparr>"

text \<open>
  An instance of the \<^verbatim>\<open>mongodb\<close> parameters for the examples: a string of 24 hexadecimal
  digits is valid and gives the \<^verbatim>\<open>ObjectId\<close> of that (lower case) form, an \<^verbatim>\<open>ObjectId\<close> is
  valid and gives itself, and the short strings the examples use as identifiers are not
  valid.
\<close>

definition hexLower :: "char \<Rightarrow> char" where
  "hexLower c = (case map_of (zip ''ABCDEF'' ''abcdef'') c of None \<Rightarrow> c | Some l \<Rightarrow> l)"

definition hexLib :: bson where
  "hexLib =
     \<lparr>isValid = (\<lambda>x. case x of
          Some (JStr s) \<Rightarrow> length s = 24 \<and> list_all (\<lambda>c. c \<in> set ''0123456789abcdefABCDEF'') s
        | Some (JOid h) \<Rightarrow> True
        | _ \<Rightarrow> False),
      ObjectId = (\<lambda>x. case x of
          Some (JStr s) \<Rightarrow> JOid (map hexLower s)
        | Some (JOid h) \<Rightarrow> JOid h
        | _ \<Rightarrow> JNull)\<rparr>"

definition noBackupEntries :: "dirent list" where
  "noBackupEntries =
     [\<lparr>name = ''notes'', isDirectory = True\<rparr>, \<lparr>name = ''backup_old.txt'', isDirectory = False\<rparr>]"

definition corruptFs :: fsys where
  "corruptFs =
     mockFs [\<lparr>name = ''backup_10282025_023811'', isDirectory = True\<rparr>]
       [''patients.json'', ''appointments.json'', ''visits.json'']
       (\<lambda>p. if p = ''C:/temp/backups/backup_10282025_023811/patients.json''
            then Inr [johnDoe, janeSmith] else Inl (JSONError ''Invalid JSON''))"

text \<open>Two instants either side of a new year, and a base directory holding the snapshots
  written at them.\<close>

definition newYearsEve :: date where
  "newYearsEve = \<lparr>getFullYear = 2024, getMonth = 11, getDate = 31,
     getHours = 23, getMinutes = 59, getSeconds = 59\<rparr>"

definition newYearsDay :: date where
  "newYearsDay = \<lparr>getFullYear = 2025, getMonth = 0, getDate = 1,
     getHours = 0, getMinutes = 0, getSeconds = 0\<rparr>"

definition twoYearsFs :: fsys where
  "twoYearsFs =
     mockFs [\<lparr>name = getTimestamp newYearsEve, isDirectory = True\<rparr>,
             \<lparr>name = getTimestamp newYearsDay, isDirectory = True\<rparr>]
       [] (\<lambda>p. Inl (IOError p))"

text \<open>The first patient with \<^verbatim>\<open>_id\<close> written last, and a collection whose documents have
  native identifiers, with the snapshot documents for it: the first has a new age and two
  more fields, the second is unchanged, the third is new.\<close>

definition johnDoeIdLast :: doc where
  "johnDoeIdLast = [(''name'', JStr ''John Doe''), (''age'', JNum 25), (''_id'', JStr ''1'')]"

definition nativePatients :: "doc list" where
  "nativePatients =
     [[(''_id'', JOid ''507f1f77bcf86cd799439011''), (''name'', JStr ''John Doe''), (''age'', JNum 25)],
      [(''_id'', JOid ''507f1f77bcf86cd799439012''), (''name'', JStr ''Jane Smith''), (''age'', JNum 28)],
      [(''_id'', JOid ''507f1f77bcf86cd799439013''), (''name'', JStr ''Jim Brown''), (''age'', JNum 40)]]"

definition nativeStore :: state where
  "nativeStore = \<lparr>colls = (\<lambda>c. if c = ''patients'' then nativePatients else []),
     issued = [], logged = [], createPk = countPk\<rparr>"

definition nativeBackup :: "doc list" where
  "nativeBackup =
     [[(''_id'', JStr ''507f1f77bcf86cd799439011''), (''name'', JStr ''John Doe''), (''age'', JNum 26),
       (''email'', JStr ''john@example.org''), (''phone'', JStr ''555-0100'')],
      [(''_id'', JStr ''507f1f77bcf86cd799439012''), (''name'', JStr ''Jane Smith''), (''age'', JNum 28)],
      [(''_id'', JStr ''507f1f77bcf86cd799439014''), (''name'', JStr ''Joan Gray''), (''age'', JNum 31)]]"

text \<open>The first patient with a field the snapshot does not have.\<close>

definition phoneStore :: state where
  "phoneStore =
     \<lparr>colls = (\<lambda>c. if c = ''patients''
          then [johnDoe @ [(''phone'', JStr ''555-0100'')]] else []),
      issued = [], logged = [], createPk = countPk\<rparr>"

text \<open>A collection with a native identifier and, as a string, the same digits in upper
  case, and snapshot documents for the two.\<close>

definition upperCaseStore :: state where
  "upperCaseStore =
     \<lparr>colls = (\<lambda>c. if c = ''patients''
          then [[(''_id'', JOid ''507f1f77bcf86cd799439011''), (''visits'', JNum 1)],
                [(''_id'', JStr ''507F1F77BCF86CD799439011''), (''visits'', JNum 1)]]
          else []),
      issued = [], logged = [], createPk = countPk\<rparr>"

definition upperCaseBackup :: "doc list" where
  "upperCaseBackup =
     [[(''_id'', JStr ''507f1f77bcf86cd799439011''), (''visits'', JNum 1)],
      [(''_id'', JStr ''507F1F77BCF86CD799439011''), (''visits'', JNum 2)]]"

section \<open>Serialisation\<close>

text \<open>
  Two values have the same \<^verbatim>\<open>JSON.stringify\<close> exactly when they have the same JSON
  image: a serialisation is never a proper prefix of another one, so a sequence of tokens
  is read back in one way only.
\<close>

lemma stringify_opener: "\<exists>t ts. stringify v = t # ts \<and> opener t"
  by (cases v) auto

lemma commaSep_Cons:
  "commaSep (x # xs) = (if xs = [] then x else x @ TComma # commaSep xs)"
  by (cases xs) auto

lemma commaSep_prefix:
  assumes el: "\<forall>x\<in>set xs. \<forall>y r r'. F x @ r = F y @ r' \<longrightarrow> R x y \<and> r = r'"
    and op: "\<And>x. \<exists>t ts. F x = t # ts \<and> opener t"
    and cl: "\<not> opener c" "c \<noteq> TComma"
    and eq: "commaSep (map F xs) @ c # r = commaSep (map F ys) @ c # r'"
  shows "list_all2 R xs ys \<and> r = r'"
  using el eq
proof (induction xs arbitrary: ys)
  case Nil
  show ?case
  proof (cases ys)
    case Nil
    with Nil.prems show ?thesis by simp
  next
    case (Cons y ys')
    obtain t ts where "F y = t # ts" "opener t" using op by blast
    with Nil.prems(2) Cons cl show ?thesis
      by (auto simp: commaSep_Cons split: if_splits)
  qed
next
  case (Cons x xs')
  obtain t ts where fx: "F x = t # ts" "opener t" using op by blast
  show ?case
  proof (cases ys)
    case Nil
    with Cons.prems(2) fx cl show ?thesis
      by (auto simp: commaSep_Cons split: if_splits)
  next
    case (Cons y ys')
    let ?rx = "(if xs' = [] then [] else TComma # commaSep (map F xs')) @ c # r"
    let ?ry = "(if ys' = [] then [] else TComma # commaSep (map F ys')) @ c # r'"
    have step: "F x @ r1 = F y @ r2 \<Longrightarrow> R x y \<and> r1 = r2" for r1 r2
      using Cons.prems(1) by (blast intro: list.set_intros)
    from Cons.prems(2) Cons have "F x @ ?rx = F y @ ?ry"
      by (simp add: commaSep_Cons split: if_splits)
    from step[OF this] have rxy: "R x y" and rest: "?rx = ?ry" by blast+
    have "list_all2 R xs' ys' \<and> r = r'"
    proof (cases "xs' = []")
      case True
      with rest cl show ?thesis by (auto split: if_splits)
    next
      case False
      with rest cl have ne: "ys' \<noteq> []" by (auto split: if_splits)
      with rest False have "commaSep (map F xs') @ c # r = commaSep (map F ys') @ c # r'"
        by simp
      moreover from Cons.prems(1)
      have "\<forall>x\<in>set xs'. \<forall>y r r'. F x @ r = F y @ r' \<longrightarrow> R x y \<and> r = r'"
        by (blast intro: list.set_intros)
      ultimately show ?thesis by (rule Cons.IH[rotated])
    qed
    with rxy Cons show ?thesis by simp
  qed
qed

lemma list_all2_map_eq: "list_all2 (\<lambda>x y. f x = f y) xs ys \<Longrightarrow> map f xs = map f ys"
  by (induction xs ys rule: list_all2_induct) simp_all

lemma stringify_prefix:
  "stringify a @ r = stringify b @ r' \<Longrightarrow> toJSON a = toJSON b \<and> r = r'"
proof (induction a arbitrary: b r r')
  case JNull
  then show ?case by (cases b) simp_all
next
  case (JBool x)
  then show ?case by (cases b) simp_all
next
  case (JNum x)
  then show ?case by (cases b) simp_all
next
  case (JStr x)
  then show ?case by (cases b) simp_all
next
  case (JOid x)
  then show ?case by (cases b) simp_all
next
  case (JArr xs)
  from JArr.prems obtain ys where b: "b = JArr ys"
    by (cases b) simp_all
  with JArr.prems have eq: "commaSep (map stringify xs) @ TRBrack # r
      = commaSep (map stringify ys) @ TRBrack # r'" by simp
  have el: "\<forall>x\<in>set xs. \<forall>y r r'. stringify x @ r = stringify y @ r'
      \<longrightarrow> toJSON x = toJSON y \<and> r = r'"
    using JArr.IH by blast
  have "list_all2 (\<lambda>x y. toJSON x = toJSON y) xs ys \<and> r = r'"
    by (rule commaSep_prefix[OF el stringify_opener _ _ eq]) simp_all
  then show ?case using b by (simp add: list_all2_map_eq)
next
  case (JObj fs)
  from JObj.prems obtain gs where b: "b = JObj gs"
    by (cases b) simp_all
  let ?F = "\<lambda>(k, v). TStr k # TColon # stringify v"
  let ?N = "\<lambda>(k, v). (k, toJSON v)"
  from b JObj.prems have eq: "commaSep (map ?F fs) @ TRBrace # r
      = commaSep (map ?F gs) @ TRBrace # r'" by simp
  have el: "\<forall>x\<in>set fs. \<forall>y r r'. ?F x @ r = ?F y @ r' \<longrightarrow> ?N x = ?N y \<and> r = r'"
  proof (intro ballI allI impI)
    fix x y r1 r2 assume x: "x \<in> set fs" and e: "?F x @ r1 = ?F y @ r2"
    obtain k v where xk: "x = (k, v)" by (cases x)
    obtain k' v' where yk: "y = (k', v')" by (cases y)
    from e xk yk have kk: "k = k'" and e2: "stringify v @ r1 = stringify v' @ r2" by simp_all
    from x xk have "v \<in> Basic_BNFs.snds x" by simp
    from JObj.IH[OF x this e2] kk xk yk show "?N x = ?N y \<and> r1 = r2" by simp
  qed
  have op: "\<exists>t ts. ?F x = t # ts \<and> opener t" for x by (cases x) simp
  have "list_all2 (\<lambda>x y. ?N x = ?N y) fs gs \<and> r = r'"
    by (rule commaSep_prefix[OF el op _ _ eq]) simp_all
  then show ?case using b by (simp add: list_all2_map_eq)
qed

lemma stringify_toJSON: "stringify (toJSON a) = stringify a"
proof (induction a)
  case (JArr xs)
  have "map (stringify \<circ> toJSON) xs = map stringify xs"
    by (rule map_cong[OF refl]) (simp add: JArr.IH)
  then show ?case by (simp only: toJSON.simps stringify.simps map_map)
next
  case (JObj fs)
  have "map ((\<lambda>(k, v). TStr k # TColon # stringify v) \<circ> (\<lambda>(k, v). (k, toJSON v))) fs
      = map (\<lambda>(k, v). TStr k # TColon # stringify v) fs"
  proof (rule map_cong[OF refl])
    fix x assume x: "x \<in> set fs"
    obtain k v where xk: "x = (k, v)" by (cases x)
    with x have "v \<in> Basic_BNFs.snds x" by simp
    from JObj.IH[OF x this] xk
    show "((\<lambda>(k, v). TStr k # TColon # stringify v) \<circ> (\<lambda>(k, v). (k, toJSON v))) x
        = (\<lambda>(k, v). TStr k # TColon # stringify v) x"
      by simp
  qed
  then show ?case by (simp only: toJSON.simps stringify.simps map_map)
qed simp_all

lemma stringify_eq_iff: "stringify a = stringify b \<longleftrightarrow> toJSON a = toJSON b"
proof
  assume "stringify a = stringify b"
  then have "stringify a @ [] = stringify b @ []" by simp
  from stringify_prefix[OF this] show "toJSON a = toJSON b" by (rule conjunct1)
next
  assume "toJSON a = toJSON b"
  then show "stringify a = stringify b" by (metis stringify_toJSON)
qed

lemma stringify_doc_eq_iff: "stringify (JObj a) = stringify (JObj b) \<longleftrightarrow> docJSON a = docJSON b"
  by (simp only: stringify_eq_iff toJSON.simps json.inject docJSON_def)

section \<open>Operations issued for one collection\<close>

lemma issued_console_log [simp]: "issued (console_log l st) = issued st"
  by (simp add: console_log_def)

lemma colls_console_log [simp]: "colls (console_log l st) = colls st"
  by (simp add: console_log_def)

lemma issued_exec [simp]: "issued (exec o1 st) = issued st @ [o1]"
  by (simp add: exec_def)

lemma colls_exec [simp]: "colls (exec o1 st) = applyOp (createPk st) o1 (colls st)"
  by (simp add: exec_def)

lemma createPk_console_log [simp]: "createPk (console_log l st) = createPk st"
  by (simp add: console_log_def)

lemma createPk_exec [simp]: "createPk (exec o1 st) = createPk st"
  by (simp add: exec_def)

lemma issued_foldl_exec:
  "issued (foldl (\<lambda>s d. exec (f d) s) st xs) = issued st @ map f xs"
  by (induction xs arbitrary: st) simp_all

lemma issued_loadCollection:
  "issued (loadCollection lib cn newData st) =
     issued st @ opsFor lib cn (toInsert newData (colls st cn))
       (toDelete newData (colls st cn)) (toUpdate newData (colls st cn))"
  by (simp add: loadCollection_def opsFor_def Let_def issued_foldl_exec)

lemma issued_loadCollection_scripts:
  "issued (loadCollection_scripts cn newData st) =
     issued st @ opsFor lib cn (toInsert_scripts newData (colls st cn))
       (toDelete_scripts newData (colls st cn)) []"
  by (simp add: loadCollection_scripts_def opsFor_def Let_def)

subsection \<open>Identifier lists\<close>

lemma set_filterBoolean: "set (filterBoolean xs) = {s. s \<noteq> [] \<and> Some s \<in> set xs}"
  by (induction xs) (auto simp: filterBoolean_def split: option.splits)

lemma withId_Nil_iff: "withId i docs = [] \<longleftrightarrow> (\<forall>d\<in>set docs. idString d \<noteq> Some i)"
  by (simp add: withId_def filter_empty_conv)

lemma Some_in_ids: "Some s \<in> set (map idString docs) \<longleftrightarrow> withId s docs \<noteq> []"
  unfolding withId_Nil_iff by (simp add: image_iff) metis

lemma includes_existingIds:
  "includes_str (existingIds e) x \<longleftrightarrow> (\<exists>s. x = Some s \<and> s \<noteq> [] \<and> withId s e \<noteq> [])"
  by (cases x) (simp_all add: includes_str_def existingIds_def set_filterBoolean Some_in_ids del: set_map)

lemma includes_newIds:
  "includes_str (newIds n) x \<longleftrightarrow> (\<exists>s. x = Some s \<and> s \<noteq> [] \<and> withId s n \<noteq> [])"
  by (cases x) (simp_all add: includes_str_def newIds_def set_filterBoolean Some_in_ids del: set_map)

lemma withId_toInsert:
  "withId i e = [] \<Longrightarrow> withId i (toInsert n e) = withId i n"
  unfolding withId_def toInsert_def filter_filter
  by (rule filter_cong) (auto simp: includes_existingIds withId_def)

lemma withId_toDelete:
  "withId i n = [] \<Longrightarrow> withId i (toDelete n e) = withId i e"
  unfolding withId_def toDelete_def filter_filter
  by (rule filter_cong) (auto simp: includes_newIds withId_def)

lemma count_list_filter: "P d \<Longrightarrow> count_list (filter P xs) d = count_list xs d"
  by (induction xs) auto

lemma withId_single_mem: "withId i docs = [d] \<Longrightarrow> d \<in> set docs \<and> idString d = Some i"
proof -
  assume "withId i docs = [d]"
  then have "d \<in> set (withId i docs)" by simp
  then show ?thesis by (simp add: withId_def)
qed


lemma idString_bsonId:
  "idString d = (case bsonId (get_id d) of JNull \<Rightarrow> None | v \<Rightarrow> Some (toString v))"
  by (simp add: idString_def bsonId_def split: option.splits json.splits)

lemma bsonId_eq_idString:
  "bsonId (get_id a) = bsonId (get_id b) \<Longrightarrow> idString a = idString b"
  by (simp add: idString_bsonId)

lemma toDelete_mem:
  "x \<in> set (toDelete n e) \<longleftrightarrow> x \<in> set e \<and> \<not> includes_str (newIds n) (idString x)"
  by (simp add: toDelete_def)

lemma toInsert_mem:
  "x \<in> set (toInsert n e) \<longleftrightarrow> x \<in> set n \<and> \<not> includes_str (existingIds e) (idString x)"
  by (simp add: toInsert_def)

lemma deleteMany_toDelete:
  "deleteMany (map get_id (toDelete n e)) e
     = filter (\<lambda>x. idString x \<notin> idString ` set (toDelete n e)) e"
  unfolding deleteMany_def
proof (rule filter_cong[OF refl])
  fix x assume x: "x \<in> set e"
  show "(bsonId (get_id x) \<notin> set (map bsonId (map get_id (toDelete n e))))
      = (idString x \<notin> idString ` set (toDelete n e))"
  proof -
    have "bsonId (get_id x) \<in> set (map bsonId (map get_id (toDelete n e)))
        \<longleftrightarrow> x \<in> set (toDelete n e)"
    proof
      assume "bsonId (get_id x) \<in> set (map bsonId (map get_id (toDelete n e)))"
      then obtain t where t: "t \<in> set (toDelete n e)" "bsonId (get_id t) = bsonId (get_id x)"
        by auto
      then have "idString t = idString x" by (rule_tac bsonId_eq_idString)
      with t(1) x show "x \<in> set (toDelete n e)" by (simp add: toDelete_mem)
    next
      assume "x \<in> set (toDelete n e)"
      then show "bsonId (get_id x) \<in> set (map bsonId (map get_id (toDelete n e)))" by simp
    qed
    moreover have "idString x \<in> idString ` set (toDelete n e) \<longleftrightarrow> x \<in> set (toDelete n e)"
    proof
      assume "idString x \<in> idString ` set (toDelete n e)"
      then obtain t where t: "t \<in> set (toDelete n e)" "idString t = idString x" by auto
      with x show "x \<in> set (toDelete n e)" by (simp add: toDelete_mem)
    qed simp
    ultimately show ?thesis by simp
  qed
qed

subsection \<open>Documents without identifier\<close>

lemma not_hasId_includes: "\<not> hasId d \<Longrightarrow> \<not> includes_str ids' (idString d) \<or> [] \<in> set ids'"
  by (auto simp: hasId_def includes_str_def split: option.splits)

lemma Nil_notin_filterBoolean: "[] \<notin> set (filterBoolean xs)"
  by (simp add: set_filterBoolean)

lemma not_hasId_not_existing: "\<not> hasId d \<Longrightarrow> \<not> includes_str (existingIds e) (idString d)"
  using not_hasId_includes[of d "existingIds e"] by (simp add: existingIds_def Nil_notin_filterBoolean)

lemma not_hasId_not_new: "\<not> hasId d \<Longrightarrow> \<not> includes_str (newIds n) (idString d)"
  using not_hasId_includes[of d "newIds n"] by (simp add: newIds_def Nil_notin_filterBoolean)

lemma filterBoolean_append: "filterBoolean (xs @ ys) = filterBoolean xs @ filterBoolean ys"
  by (simp add: filterBoolean_def)

lemma filterBoolean_not_hasId: "\<not> hasId d \<Longrightarrow> filterBoolean [idString d] = []"
  by (simp add: filterBoolean_def hasId_def split: option.splits)

lemma newIds_drop: "\<not> hasId d \<Longrightarrow> newIds (pre @ d # post) = newIds (pre @ post)"
  using filterBoolean_append[of "map idString pre" "idString d # map idString post"]
    filterBoolean_append[of "[idString d]" "map idString post"]
  by (simp add: newIds_def filterBoolean_append filterBoolean_not_hasId)

lemma existingIds_newIds: "existingIds xs = newIds xs"
  by (simp add: existingIds_def newIds_def)

lemma toUpdate_mem:
  "x \<in> set (toUpdate n e) \<longleftrightarrow> x \<in> set n \<and>
     (\<exists>m. find (\<lambda>l. idString l = idString x) e = Some m \<and> stringify (JObj m) \<noteq> stringify (JObj x))"
  by (auto simp: toUpdate_def split: option.splits)

subsection \<open>Documents with the same identifier\<close>

lemma find_withId:
  "withId i docs = l # rest \<Longrightarrow> find (\<lambda>e. idString e = Some i) docs = Some l"
  by (induction docs) (auto simp: withId_def split: if_splits)

lemma find_withId_Nil:
  "withId i docs = [] \<Longrightarrow> find (\<lambda>e. idString e = Some i) docs = None"
  by (induction docs) (auto simp: withId_def split: if_splits)

lemma docJSON_fieldsOf: "docJSON (fieldsOf d) = fieldsOf (docJSON d)"
  by (induction d) (auto simp: docJSON_def fieldsOf_def)

lemma docJSON_eq_content: "docJSON a = docJSON b \<Longrightarrow> content a = content b"
  by (simp add: content_def docJSON_fieldsOf)

lemma withId_toUpdate_eq:
  assumes "withId i e = l # rest"
  shows "withId i (toUpdate n e) = filter (\<lambda>x. docJSON l \<noteq> docJSON x) (withId i n)"
proof -
  have key: "(case find (\<lambda>e. idString e = Some i) e of None \<Rightarrow> False
          | Some match \<Rightarrow> stringify (JObj match) \<noteq> stringify (JObj x))
      = (docJSON l \<noteq> docJSON x)" for x
    using find_withId[OF assms] by (simp add: stringify_doc_eq_iff del: stringify.simps)
  show ?thesis
    unfolding withId_def toUpdate_def filter_filter
    by (rule filter_cong[OF refl]) (auto simp: key)
qed


section \<open>The run over the snapshot directory\<close>

lemma loadBackup_with_empty:
  assumes "readdirTypes fs (resolveBaseDir fs baseDir) = Inr entries"
    and "backupDirsOf entries = []"
  shows "loadBackup_with body fs baseDir st = (Inr (), console_log ''No backups found.'' st)"
  using assms by (simp add: loadBackup_with_def)

lemma backupDirsOf_Nil_iff:
  "backupDirsOf entries = []
    \<longleftrightarrow> list_all (\<lambda>d. \<not> (isDirectory d \<and> startsWith (name d) ''backup_'')) entries"
  by (simp add: backupDirsOf_def filter_empty_conv list_all_iff)


lemma forFiles_append:
  "forFiles body fs dir (pre @ rest) st =
     (case forFiles body fs dir pre st of
        (Inl e, s) \<Rightarrow> (Inl e, s)
      | (Inr u, s) \<Rightarrow> forFiles body fs dir rest s)"
  by (induction pre arbitrary: st) (simp_all add: Let_def split: sum.splits)

lemma loadBackup_with_files:
  assumes "readdirTypes fs (resolveBaseDir fs baseDir) = Inr entries"
    and "backupDirsOf entries \<noteq> []"
    and "readdir fs (path_join (resolveBaseDir fs baseDir) (last (sort (backupDirsOf entries)))) = Inr files"
  shows "loadBackup_with body fs baseDir st =
     forFiles body fs (path_join (resolveBaseDir fs baseDir) (last (sort (backupDirsOf entries)))) files
       (console_log (''Loading latest backup: ''
          @ path_join (resolveBaseDir fs baseDir) (last (sort (backupDirsOf entries)))) st)"
proof -
  have "sort (backupDirsOf entries) \<noteq> []" using assms(2)
    by (metis length_0_conv length_sort)
  then have "sort (backupDirsOf entries) ! (length (sort (backupDirsOf entries)) - 1)
      = last (sort (backupDirsOf entries))"
    by (simp add: last_conv_nth)
  with assms show ?thesis
    by (simp add: loadBackup_with_def Let_def)
qed

section \<open>The store after a run\<close>

lemma createPk_foldl_exec [simp]:
  "createPk (foldl (\<lambda>s d. exec (f d) s) st xs) = createPk st"
  by (induction xs arbitrary: st) simp_all

lemma colls_foldl_exec_update:
  "colls (foldl (\<lambda>s d. exec (updateFor lib cn d) s) st xs) cn
     = foldl (stepUpdate lib) (colls st cn) xs"
  by (induction xs arbitrary: st) (simp_all add: updateFor_def stepUpdate_def)

lemma deleteMany_Nil [simp]: "deleteMany [] c = c"
  by (simp add: deleteMany_def)

lemma colls_loadCollection:
  "colls (loadCollection lib cn newData st) cn
     = foldl (stepUpdate lib)
         (deleteMany (map get_id (toDelete newData (colls st cn)))
            (insertMany (createPk st) (toInsert newData (colls st cn)) (colls st cn)))
         (toUpdate newData (colls st cn))"
  by (simp add: loadCollection_def Let_def colls_foldl_exec_update)

subsection \<open>Stored documents\<close>

lemma fieldsOf_no_id: "''_id'' \<notin> fst ` set (fieldsOf d)"
  by (auto simp: fieldsOf_def)

lemma fieldsOf_id: "''_id'' \<notin> fst ` set d \<Longrightarrow> fieldsOf d = d"
  by (induction d) (auto simp: fieldsOf_def)

lemma storedDoc_idFirst:
  assumes "idFirst d" "hasId d"
  shows "storedDoc pk d = d"
proof -
  from assms(1) obtain p ps where d: "d = p # ps" and p: "fst p = ''_id''"
    and ps: "''_id'' \<notin> set (map fst ps)"
    by (cases d) (auto simp: idFirst_def)
  from d p have g: "get_id d = Some (snd p)" by (cases p) (simp add: get_id_def)
  with assms(2) have nn: "snd p \<noteq> JNull" by (auto simp: hasId_def idString_def)
  from ps have "fieldsOf ps = ps" by (simp add: fieldsOf_id)
  with d p have f: "fieldsOf d = ps" by (cases p) (simp add: fieldsOf_def)
  from nn have "(case Some (snd p) of None \<Rightarrow> pk | Some JNull \<Rightarrow> pk | Some v \<Rightarrow> v) = snd p"
    by (cases "snd p") simp_all
  with g f d p show ?thesis by (cases p) (simp add: storedDoc_def)
qed

lemma insertMany_idFirst:
  "list_all idFirst docs \<Longrightarrow> list_all hasId docs \<Longrightarrow> insertMany pk docs c = c @ docs"
  by (induction docs arbitrary: c) (simp_all add: storedDoc_idFirst)

lemma set_insertMany: "l \<in> set c \<Longrightarrow> l \<in> set (insertMany pk docs c)"
  by (induction docs arbitrary: c) simp_all

subsection \<open>\<^verbatim>\<open>$set\<close>\<close>

lemma map_of_setField: "map_of (setField k v d) = (map_of d)(k \<mapsto> v)"
  by (induction d) (auto simp: fun_eq_iff)

lemma keys_setField:
  "k \<in> fst ` set d \<Longrightarrow> map fst (setField k v d) = map fst d"
  by (induction d) auto

lemma keys_setField_new:
  "k \<notin> fst ` set d \<Longrightarrow> map fst (setField k v d) = map fst d @ [k]"
  by (induction d) auto

lemma keys_setFields:
  "distinct (map fst g) \<Longrightarrow>
     map fst (setFields g d) = map fst d @ filter (\<lambda>k. k \<notin> set (map fst d)) (map fst g)"
proof (induction g arbitrary: d)
  case Nil
  then show ?case by simp
next
  case (Cons p g)
  obtain k v where p: "p = (k, v)" by (cases p)
  with Cons.prems have k: "k \<notin> set (map fst g)" and dg: "distinct (map fst g)" by auto
  show ?case
  proof (cases "k \<in> fst ` set d")
    case True
    then have "map fst (setField k v d) = map fst d" by (rule keys_setField)
    with Cons.IH[OF dg, of "setField k v d"] p True show ?thesis by simp
  next
    case False
    then have keys: "map fst (setField k v d) = map fst d @ [k]" by (rule keys_setField_new)
    have "filter (\<lambda>x. x \<notin> set (map fst d @ [k])) (map fst g)
        = filter (\<lambda>x. x \<notin> set (map fst d)) (map fst g)"
      using k by (intro filter_cong) auto
    with Cons.IH[OF dg, of "setField k v d"] p False keys show ?thesis by simp
  qed
qed

lemma map_of_setFields:
  "distinct (map fst f) \<Longrightarrow> map_of (setFields f d) = map_of d ++ map_of f"
proof (induction f arbitrary: d)
  case Nil
  then show ?case by simp
next
  case (Cons p f)
  obtain k v where p: "p = (k, v)" by (cases p)
  with Cons.prems have k: "k \<notin> fst ` set f" and df: "distinct (map fst f)" by auto
  from k have none: "map_of f k = None" by (simp add: map_of_eq_None_iff)
  have "map_of (setFields (p # f) d) = map_of (setField k v d) ++ map_of f"
    using Cons.IH[OF df, of "setField k v d"] p by simp
  also have "\<dots> = map_of d ++ map_of (p # f)"
  proof (rule ext)
    fix x show "(map_of (setField k v d) ++ map_of f) x = (map_of d ++ map_of (p # f)) x"
      using none p by (cases "x = k") (simp_all add: map_add_def map_of_setField split: option.splits)
  qed
  finally show ?case .
qed

lemma get_id_setFields:
  "''_id'' \<notin> fst ` set f \<Longrightarrow> get_id (setFields f d) = get_id d"
proof (induction f arbitrary: d)
  case Nil
  then show ?case by simp
next
  case (Cons p f)
  obtain k v where p: "p = (k, v)" by (cases p)
  with Cons.prems have "k \<noteq> ''_id''" "''_id'' \<notin> fst ` set f" by auto
  with Cons.IH[of "setField k v d"] p show ?case
    by (simp add: get_id_def map_of_setField)
qed

lemma keys_insort_key: "map fst (insort_key fst p ps) = insort (fst p) (map fst ps)"
  by (induction ps) simp_all

lemma keys_sort_key: "map fst (sort_key fst f) = sort (map fst f)"
  by (induction f) (simp_all add: keys_insort_key)

lemma get_id_applySet:
  "''_id'' \<notin> fst ` set f \<Longrightarrow> get_id (applySet f d) = get_id d"
  by (simp add: applySet_def get_id_setFields)

lemma keys_applySet:
  assumes "distinct (map fst f)"
  shows "map fst (applySet f d)
     = map fst d @ sort (filter (\<lambda>k. k \<notin> set (map fst d)) (map fst f))"
proof -
  have "distinct (map fst (sort_key fst f))" using assms by (simp add: keys_sort_key)
  from keys_setFields[OF this] show ?thesis
    by (simp add: applySet_def keys_sort_key filter_sort)
qed

lemma map_of_applySet:
  assumes "distinct (map fst f)"
  shows "map_of (applySet f d) = map_of d ++ map_of f"
proof -
  have d: "distinct (map fst (sort_key fst f))" using assms by (simp add: keys_sort_key)
  have "map_of (sort_key fst f) = map_of f"
    using d assms by (simp add: map_of_inject_set)
  with map_of_setFields[OF d] show ?thesis by (simp add: applySet_def)
qed

lemma idString_applySet_fieldsOf [simp]: "idString (applySet (fieldsOf s) d) = idString d"
  by (simp add: idString_def get_id_applySet fieldsOf_no_id)

lemma get_id_applySet_fieldsOf [simp]: "get_id (applySet (fieldsOf s) d) = get_id d"
  by (simp add: get_id_applySet fieldsOf_no_id)

subsection \<open>The update loop\<close>

lemma updateOne_keeps:
  "l \<in> set c \<Longrightarrow> bsonId (get_id l) \<noteq> bsonId q \<Longrightarrow> l \<in> set (updateOne q f c)"
  by (induction c) auto

lemma foldl_stepUpdate_keeps:
  assumes "l \<in> set c"
    and "\<forall>u\<in>set upd. bsonId (queryId lib (get_id u)) \<noteq> bsonId (get_id l)"
  shows "l \<in> set (foldl (stepUpdate lib) c upd)"
  using assms
proof (induction upd arbitrary: c)
  case Nil
  then show ?case by simp
next
  case (Cons u upd)
  from Cons.prems have "bsonId (get_id l) \<noteq> bsonId (queryId lib (get_id u))" by auto
  with Cons.prems(1) have "l \<in> set (stepUpdate lib c u)"
    unfolding stepUpdate_def by (rule updateOne_keeps)
  with Cons.IH[of "stepUpdate lib c u"] Cons.prems(2) show ?case by simp
qed

lemma keepsId_query:
  assumes "keepsId lib u"
    and "bsonId (queryId lib (get_id u)) = bsonId (get_id l)"
    and "idString l = Some i"
  shows "idString u = Some i"
proof (cases "isValid lib (get_id u)")
  case True
  with assms(2) have q: "bsonId (get_id l) = ObjectId lib (get_id u)"
    by (simp add: queryId_def bsonId_def)
  from assms(3) have "Some (toString (bsonId (get_id l))) = Some i"
    by (auto simp: idString_bsonId split: json.splits)
  with q True assms(1) show ?thesis by (simp add: keepsId_def)
next
  case False
  with assms(2) have "bsonId (get_id u) = bsonId (get_id l)" by (simp add: queryId_def)
  from bsonId_eq_idString[OF this] assms(3) show ?thesis by simp
qed

lemma updateOne_replace:
  assumes "distinct (map idString c)" "l \<in> set c" "bsonId (get_id l) = bsonId q"
  shows "updateOne q f c = map (\<lambda>d. if idString d = idString l then applySet f d else d) c"
  using assms
proof (induction c)
  case Nil
  then show ?case by simp
next
  case (Cons d c)
  show ?case
  proof (cases "bsonId (get_id d) = bsonId q")
    case True
    with Cons.prems(3) have same: "idString d = idString l"
      by (simp add: idString_bsonId)
    with Cons.prems(1) have "idString l \<notin> idString ` set c" by simp
    then have "\<forall>x\<in>set c. idString x \<noteq> idString l" by (metis image_eqI)
    then have "map (\<lambda>d. if idString d = idString l then applySet f d else d) c = c"
      by (induction c) auto
    with True same show ?thesis by simp
  next
    case False
    with Cons.prems(3) have "d \<noteq> l" by auto
    with Cons.prems(2) have lc: "l \<in> set c" by simp
    with Cons.prems(1) have "idString d \<noteq> idString l" by (auto simp: image_iff)
    with False Cons.IH[OF _ lc Cons.prems(3)] Cons.prems(1) show ?thesis by simp
  qed
qed

lemma idString_updated [simp]: "idString (updated upd d) = idString d"
  by (simp add: updated_def split: option.splits)

lemma updated_Nil [simp]: "updated [] d = d"
  by (simp add: updated_def)

lemma find_append_None:
  "find P xs = None \<Longrightarrow> find P (xs @ ys) = find P ys"
  by (induction xs) (auto split: if_splits)

lemma find_append_Some:
  "find P xs = Some x \<Longrightarrow> find P (xs @ ys) = Some x"
  by (induction xs) (auto split: if_splits)

lemma foldl_stepUpdate:
  assumes dB: "distinct (map idString B)"
    and dU: "distinct (map idString upd)"
    and hit: "\<forall>s\<in>set upd. \<exists>l\<in>set B. idString l = idString s
        \<and> bsonId (get_id l) = bsonId (queryId lib (get_id s))"
  shows "foldl (stepUpdate lib) B upd = map (updated upd) B"
  using dU hit
proof (induction upd rule: rev_induct)
  case Nil
  show ?case by (simp add: map_idI)
next
  case (snoc s upd)
  from snoc.prems have dU': "distinct (map idString upd)"
    and fresh: "idString s \<notin> idString ` set upd" by auto
  from snoc.prems(2) have hit': "\<forall>s\<in>set upd. \<exists>l\<in>set B. idString l = idString s
        \<and> bsonId (get_id l) = bsonId (queryId lib (get_id s))" by simp
  from snoc.prems(2) obtain l where l: "l \<in> set B" "idString l = idString s"
      "bsonId (get_id l) = bsonId (queryId lib (get_id s))" by auto
  have noS: "find (\<lambda>x. idString x = idString s) upd = None"
    using fresh by (auto simp: find_None_iff image_iff)
  have ul: "updated upd l = l" using noS l(2) by (simp add: updated_def)
  have IH: "foldl (stepUpdate lib) B upd = map (updated upd) B"
    by (rule snoc.IH[OF dU' hit'])
  have dM: "distinct (map idString (map (updated upd) B))"
    using dB by (simp add: comp_def)
  have lM: "l \<in> set (map (updated upd) B)" using l(1) ul by force
  have "foldl (stepUpdate lib) B (upd @ [s])
      = updateOne (queryId lib (get_id s)) (fieldsOf s) (map (updated upd) B)"
    by (simp add: IH stepUpdate_def)
  also have "\<dots> = map (\<lambda>d. if idString d = idString l then applySet (fieldsOf s) d else d)
      (map (updated upd) B)"
    by (rule updateOne_replace[OF dM lM l(3)])
  also have "\<dots> = map ((\<lambda>d. if idString d = idString l then applySet (fieldsOf s) d else d)
      \<circ> updated upd) B"
    by (simp only: map_map)
  also have "\<dots> = map (updated (upd @ [s])) B"
  proof (rule map_cong[OF refl])
    fix d assume "d \<in> set B"
    show "((\<lambda>d. if idString d = idString l then applySet (fieldsOf s) d else d) \<circ> updated upd) d
        = updated (upd @ [s]) d"
    proof (cases "idString d = idString s")
      case True
      with noS have "find (\<lambda>x. idString x = idString d) upd = None" by simp
      with True l(2) show ?thesis by (simp add: updated_def find_append_None)
    next
      case False
      show ?thesis
      proof (cases "find (\<lambda>x. idString x = idString d) upd")
        case None
        with False l(2) show ?thesis by (simp add: updated_def find_append_None)
      next
        case (Some a)
        with False l(2) show ?thesis by (simp add: updated_def find_append_Some)
      qed
    qed
  qed
  finally show ?case .
qed

lemma map_of_fieldsOf: "map_of (fieldsOf d) k = (if k = ''_id'' then None else map_of d k)"
  by (induction d) (auto simp: fieldsOf_def)

lemma keys_fieldsOf: "map fst (fieldsOf d) = filter (\<lambda>k. k \<noteq> ''_id'') (map fst d)"
  by (induction d) (auto simp: fieldsOf_def)

lemma map_of_docJSON: "map_of (docJSON d) k = map_option toJSON (map_of d k)"
  by (induction d) (auto simp: docJSON_def)

lemma keys_docJSON [simp]: "map fst (docJSON d) = map fst d"
  by (induction d) (auto simp: docJSON_def)

lemma doc_eqI:
  assumes "map fst a = map fst b" "distinct (map fst a)"
    and "\<And>k. k \<in> set (map fst a) \<Longrightarrow> map_of a k = map_of b k"
  shows "a = b"
  using assms
proof (induction a arbitrary: b)
  case Nil
  then show ?case by simp
next
  case (Cons p a)
  from Cons.prems(1) obtain q b' where b: "b = q # b'" by (cases b) auto
  with Cons.prems(1) have k: "fst p = fst q" and keys: "map fst a = map fst b'" by auto
  from Cons.prems(3)[of "fst p"] b k have "snd p = snd q" by simp
  with k have pq: "p = q" by (simp add: prod_eq_iff)
  have "a = b'"
  proof (rule Cons.IH[OF keys])
    show "distinct (map fst a)" using Cons.prems(2) by simp
    fix k assume kk: "k \<in> set (map fst a)"
    from Cons.prems(2) have "fst p \<notin> set (map fst a)" by simp
    with kk have "k \<noteq> fst p" by blast
    with Cons.prems(3)[of k] kk b pq show "map_of a k = map_of b' k" by (auto split: if_splits)
  qed
  with pq b show ?case by simp
qed

lemma applySet_aligned:
  assumes pre: "take (length l) (map fst s) = map fst l"
    and srt: "sorted (drop (length l) (map fst s))"
    and dist: "distinct (map fst s)"
    and ident: "map_option toJSON (get_id s) = map_option toJSON (get_id l)"
  shows "docJSON (applySet (fieldsOf s) l) = docJSON s"
proof (rule doc_eqI)
  define rest where "rest = drop (length l) (map fst s)"
  have split: "map fst s = map fst l @ rest"
    unfolding rest_def using pre append_take_drop_id[of "length l" "map fst s"] by simp
  have srt': "sorted rest" using srt by (simp add: rest_def)
  have df: "distinct (map fst (fieldsOf s))" using dist by (simp add: keys_fieldsOf)
  have disj: "set (map fst l) \<inter> set rest = {}" using dist split by (metis distinct_append)
  have noId: "''_id'' \<notin> set rest"
  proof
    assume r: "''_id'' \<in> set rest"
    with split have "''_id'' \<in> fst ` set s" by (metis Un_iff set_append set_map)
    then have "get_id s \<noteq> None" by (simp add: get_id_def map_of_eq_None_iff)
    moreover from r disj have "''_id'' \<notin> fst ` set l" by auto
    then have "get_id l = None" by (simp add: get_id_def map_of_eq_None_iff)
    ultimately show False using ident by simp
  qed
  have "filter (\<lambda>k. k \<notin> set (map fst l)) (map fst (fieldsOf s))
      = filter (\<lambda>k. k \<notin> set (map fst l) \<and> k \<noteq> ''_id'') (map fst l @ rest)"
    unfolding keys_fieldsOf split by (simp add: conj_commute)
  also have "\<dots> = filter (\<lambda>k. k \<notin> set (map fst l) \<and> k \<noteq> ''_id'') rest"
    by (simp add: filter_empty_conv)
  also have "\<dots> = rest"
    using disj noId by (intro filter_True) auto
  finally have new: "filter (\<lambda>k. k \<notin> set (map fst l)) (map fst (fieldsOf s)) = rest" .
  have "map fst (applySet (fieldsOf s) l) = map fst l @ sort rest"
    by (simp only: keys_applySet[OF df] new)
  with srt' split have k1: "map fst (applySet (fieldsOf s) l) = map fst s"
    by (simp add: sort_key_id_if_sorted)
  then show "map fst (docJSON (applySet (fieldsOf s) l)) = map fst (docJSON s)" by simp
  from k1 dist show "distinct (map fst (docJSON (applySet (fieldsOf s) l)))" by simp
  fix k assume "k \<in> set (map fst (docJSON (applySet (fieldsOf s) l)))"
  with k1 have "k \<in> set (map fst s)" by simp
  then have ks: "k \<in> fst ` set s" by simp
  then obtain v where v: "map_of s k = Some v"
    by (metis map_of_eq_None_iff not_None_eq)
  show "map_of (docJSON (applySet (fieldsOf s) l)) k = map_of (docJSON s) k"
  proof (cases "k = ''_id''")
    case True
    with ident show ?thesis
      by (simp add: map_of_docJSON map_of_applySet[OF df] map_add_def map_of_fieldsOf get_id_def)
  next
    case False
    with v show ?thesis
      by (simp add: map_of_docJSON map_of_applySet[OF df] map_add_def map_of_fieldsOf)
  qed
qed

text \<open>The conditions of \<open>applySet_aligned\<close> are the only way for \<^verbatim>\<open>$set\<close> to make the
  two documents serialise alike.\<close>

lemma applySet_aligned_only:
  assumes dist: "distinct (map fst s)"
    and same: "docJSON (applySet (fieldsOf s) l) = docJSON s"
  shows "take (length l) (map fst s) = map fst l \<and> sorted (drop (length l) (map fst s))
     \<and> map_option toJSON (get_id s) = map_option toJSON (get_id l)"
proof -
  have df: "distinct (map fst (fieldsOf s))" using dist by (simp add: keys_fieldsOf)
  let ?new = "sort (filter (\<lambda>k. k \<notin> set (map fst l)) (map fst (fieldsOf s)))"
  from same have "map fst (docJSON (applySet (fieldsOf s) l)) = map fst (docJSON s)" by simp
  then have keys: "map fst s = map fst l @ ?new" by (simp add: keys_applySet[OF df])
  then have "take (length l) (map fst s) = map fst l" by simp
  moreover from keys have "drop (length l) (map fst s) = ?new" by simp
  then have "sorted (drop (length l) (map fst s))" by simp
  moreover have "map_option toJSON (get_id s) = map_option toJSON (get_id l)"
  proof -
    have "map_of (docJSON (applySet (fieldsOf s) l)) ''_id'' = map_of (docJSON s) ''_id''"
      using same by simp
    then show ?thesis
      by (simp add: map_of_docJSON map_of_applySet[OF df] map_add_def map_of_fieldsOf get_id_def)
  qed
  ultimately show ?thesis by blast
qed

lemma hasId_includes_new:
  "d \<in> set n \<Longrightarrow> hasId d \<Longrightarrow> includes_str (newIds n) (idString d)"
  by (auto simp: includes_newIds hasId_def withId_Nil_iff split: option.splits)

lemma hasId_includes_existing:
  "d \<in> set e \<Longrightarrow> hasId d \<Longrightarrow> includes_str (existingIds e) (idString d)"
  by (auto simp: includes_existingIds hasId_def withId_Nil_iff split: option.splits)

lemma includes_existing_obtain:
  "includes_str (existingIds e) x \<Longrightarrow> \<exists>l\<in>set e. idString l = x"
  by (auto simp: includes_existingIds withId_Nil_iff)

lemma includes_new_obtain:
  "includes_str (newIds n) x \<Longrightarrow> \<exists>s\<in>set n. idString s = x"
  by (auto simp: includes_newIds withId_Nil_iff)

lemma includes_cong_ids:
  "map idString a = map idString b \<Longrightarrow> existingIds a = existingIds b"
  by (simp add: existingIds_def)

lemma deleteMany_append: "deleteMany ids (a @ b) = deleteMany ids a @ deleteMany ids b"
  by (simp add: deleteMany_def)

lemma deleteMany_toDelete_kept:
  "deleteMany (map get_id (toDelete n e)) e
     = filter (\<lambda>x. includes_str (newIds n) (idString x)) e"
  unfolding deleteMany_toDelete
proof (rule filter_cong[OF refl])
  fix x assume x: "x \<in> set e"
  have "idString x \<in> idString ` set (toDelete n e) \<longleftrightarrow> x \<in> set (toDelete n e)"
  proof
    assume "idString x \<in> idString ` set (toDelete n e)"
    then obtain t where t: "t \<in> set (toDelete n e)" "idString t = idString x" by auto
    with x show "x \<in> set (toDelete n e)" by (simp add: toDelete_mem)
  qed simp
  with x show "(idString x \<notin> idString ` set (toDelete n e))
      = includes_str (newIds n) (idString x)"
    by (simp add: toDelete_mem)
qed

lemma deleteMany_inserted:
  assumes "list_all hasId e"
  shows "deleteMany (map get_id (toDelete n e)) (toInsert n e) = toInsert n e"
  unfolding deleteMany_def
proof (rule filter_True, intro ballI)
  fix d assume d: "d \<in> set (toInsert n e)"
  show "bsonId (get_id d) \<notin> set (map bsonId (map get_id (toDelete n e)))"
  proof
    assume "bsonId (get_id d) \<in> set (map bsonId (map get_id (toDelete n e)))"
    then obtain t where t: "t \<in> set (toDelete n e)" "bsonId (get_id t) = bsonId (get_id d)"
      by auto
    then have same: "idString t = idString d" by (rule_tac bsonId_eq_idString)
    from t(1) have te: "t \<in> set e" by (simp add: toDelete_mem)
    with assms have "hasId t" by (simp add: list_all_iff)
    with te have "includes_str (existingIds e) (idString t)" by (rule hasId_includes_existing)
    with same d show False by (simp add: toInsert_mem)
  qed
qed

lemma find_map_updated:
  "find (\<lambda>x. idString x = i) (map (updated upd) xs)
     = map_option (updated upd) (find (\<lambda>x. idString x = i) xs)"
  by (induction xs) simp_all

lemma find_unique:
  "inj_on idString (set xs) \<Longrightarrow> m \<in> set xs \<Longrightarrow> find (\<lambda>x. idString x = idString m) xs = Some m"
proof (induction xs)
  case Nil
  then show ?case by simp
next
  case (Cons x xs)
  show ?case
  proof (cases "idString x = idString m")
    case True
    with Cons.prems have "x = m" by (auto simp: inj_on_def)
    then show ?thesis by simp
  next
    case False
    with Cons.prems have "m \<in> set xs" "inj_on idString (set xs)" by (auto simp: inj_on_def)
    with Cons.IH False show ?thesis by simp
  qed
qed

lemma find_SomeD: "find P xs = Some x \<Longrightarrow> x \<in> set xs \<and> P x"
  by (induction xs) (auto split: if_splits)

lemma second_run_classes:
  assumes idsN: "list_all hasId newData"
    and idsE: "list_all hasId (colls st cn)"
    and uniqN: "distinct (map idString newData)"
    and uniqE: "distinct (map idString (colls st cn))"
    and first: "list_all idFirst (toInsert newData (colls st cn))"
    and al: "\<forall>s\<in>set (toUpdate newData (colls st cn)). \<forall>l\<in>set (colls st cn).
        idString l = idString s \<longrightarrow> aligned lib s l"
  defines "e1 \<equiv> colls (loadCollection lib cn newData st) cn"
  shows "toInsert newData e1 = [] \<and> toDelete newData e1 = [] \<and> toUpdate newData e1 = []"
proof -
  let ?n = newData
  let ?e = "colls st cn"
  let ?ins = "toInsert ?n ?e"
  let ?del = "toDelete ?n ?e"
  let ?upd = "toUpdate ?n ?e"
  let ?K = "filter (\<lambda>x. includes_str (newIds ?n) (idString x)) ?e"
  let ?B = "?K @ ?ins"
  have hN: "hasId d" if "d \<in> set ?n" for d using idsN that by (simp add: list_all_iff)
  have hE: "hasId d" if "d \<in> set ?e" for d using idsE that by (simp add: list_all_iff)
  have injN: "inj_on idString (set ?n)" using uniqN by (simp add: distinct_map)
  have injE: "inj_on idString (set ?e)" using uniqE by (simp add: distinct_map)
  have insN: "set ?ins \<subseteq> set ?n" by (auto simp: toInsert_mem)
  have updN: "set ?upd \<subseteq> set ?n" by (auto simp: toUpdate_mem)
  \<comment> \<open>every document to update has its live counterpart among the kept documents\<close>
  have counterpart: "\<exists>l\<in>set ?K. idString l = idString s \<and> aligned lib s l"
    if s: "s \<in> set ?upd" for s
  proof -
    from s obtain m where "find (\<lambda>l. idString l = idString s) ?e = Some m"
      by (auto simp: toUpdate_mem)
    from find_SomeD[OF this] have m: "m \<in> set ?e" "idString m = idString s" by blast+
    with al s have a: "aligned lib s m" by blast
    from s updN have "s \<in> set ?n" by blast
    then have "includes_str (newIds ?n) (idString s)" using hN by (simp add: hasId_includes_new)
    with m a show ?thesis by auto
  qed
  \<comment> \<open>the collection before the updates\<close>
  have "list_all hasId ?ins" using hN insN by (auto simp: list_all_iff)
  with first have stored: "insertMany (createPk st) ?ins ?e = ?e @ ?ins"
    by (rule insertMany_idFirst)
  have base: "deleteMany (map get_id ?del) (insertMany (createPk st) ?ins ?e) = ?B"
    by (simp add: stored deleteMany_append deleteMany_toDelete_kept
        deleteMany_inserted[OF idsE])
  have disjoint: "idString a \<noteq> idString b" if "a \<in> set ?K" "b \<in> set ?ins" for a b
  proof
    assume eq: "idString a = idString b"
    from that(1) have "a \<in> set ?e" by simp
    then have "includes_str (existingIds ?e) (idString a)" using hE by (simp add: hasId_includes_existing)
    with eq that(2) show False by (simp add: toInsert_mem)
  qed
  have dB: "distinct (map idString ?B)"
  proof -
    have "distinct (map idString ?K)" using uniqE by (rule distinct_map_filter)
    moreover have "distinct (map idString ?ins)"
      unfolding toInsert_def using uniqN by (rule distinct_map_filter)
    moreover have "set (map idString ?K) \<inter> set (map idString ?ins) = {}"
      using disjoint by fastforce
    ultimately show ?thesis by simp
  qed
  have dU: "distinct (map idString ?upd)"
    unfolding toUpdate_def using uniqN by (rule distinct_map_filter)
  have hit: "\<forall>s\<in>set ?upd. \<exists>l\<in>set ?B. idString l = idString s
        \<and> bsonId (get_id l) = bsonId (queryId lib (get_id s))"
  proof
    fix s assume "s \<in> set ?upd"
    from counterpart[OF this] obtain l where "l \<in> set ?K" "idString l = idString s"
      "aligned lib s l" by blast
    then show "\<exists>l\<in>set ?B. idString l = idString s
        \<and> bsonId (get_id l) = bsonId (queryId lib (get_id s))"
      by (auto simp: aligned_def)
  qed
  have e1: "e1 = map (updated ?upd) ?B"
    unfolding e1_def colls_loadCollection base by (rule foldl_stepUpdate[OF dB dU hit])
  have ids1: "map idString e1 = map idString ?B" by (simp add: e1 comp_def)
  \<comment> \<open>every imported document finds a document of the same identifier\<close>
  have present: "\<exists>d\<in>set ?B. idString d = idString s" if s: "s \<in> set ?n" for s
  proof (cases "includes_str (existingIds ?e) (idString s)")
    case True
    then obtain l where l: "l \<in> set ?e" "idString l = idString s"
      using includes_existing_obtain by blast
    from s have "includes_str (newIds ?n) (idString s)" using hN by (simp add: hasId_includes_new)
    with l have "l \<in> set ?K" by simp
    with l(2) show ?thesis by auto
  next
    case False
    with s have "s \<in> set ?ins" by (simp add: toInsert_mem)
    then show ?thesis by auto
  qed
  have ins2: "toInsert ?n e1 = []"
  proof -
    have "includes_str (existingIds e1) (idString s)" if s: "s \<in> set ?n" for s
    proof -
      from present[OF s] obtain d where d: "d \<in> set ?B" "idString d = idString s" by blast
      have "hasId d" using d(1) hE hN insN by auto
      with d(1) have "includes_str (existingIds ?B) (idString d)"
        by (rule hasId_includes_existing)
      with d(2) show ?thesis using includes_cong_ids[OF ids1] by simp
    qed
    then show ?thesis by (simp add: toInsert_def filter_empty_conv)
  qed
  have del2: "toDelete ?n e1 = []"
  proof -
    have "includes_str (newIds ?n) (idString d)" if d: "d \<in> set e1" for d
    proof -
      from d obtain d0 where d0: "d0 \<in> set ?B" "d = updated ?upd d0" by (auto simp: e1)
      then have "idString d = idString d0" by simp
      moreover have "includes_str (newIds ?n) (idString d0)"
      proof (cases "d0 \<in> set ?K")
        case True
        then show ?thesis by simp
      next
        case False
        with d0(1) have "d0 \<in> set ?ins" by auto
        with insN have "d0 \<in> set ?n" by blast
        then show ?thesis using hN by (simp add: hasId_includes_new)
      qed
      ultimately show ?thesis by simp
    qed
    then show ?thesis by (simp add: toDelete_def filter_empty_conv)
  qed
  have upd2: "toUpdate ?n e1 = []"
  proof -
    have "docJSON m = docJSON s"
      if s: "s \<in> set ?n" and f: "find (\<lambda>l. idString l = idString s) e1 = Some m" for s m
    proof -
      from f have "map_option (updated ?upd) (find (\<lambda>l. idString l = idString s) ?B) = Some m"
        unfolding e1 find_map_updated .
      then obtain m0 where m0: "find (\<lambda>l. idString l = idString s) ?B = Some m0"
        and m: "m = updated ?upd m0"
        by blast
      from find_SomeD[OF m0] have m0B: "m0 \<in> set ?B" and m0id: "idString m0 = idString s"
        by blast+
      have only: "u = s" if "u \<in> set ?upd" "idString u = idString s" for u
        using that updN s injN by (auto simp: inj_on_def)
      show ?thesis
      proof (cases "m0 \<in> set ?K")
        case True
        then have m0e: "m0 \<in> set ?e" by simp
        have fe: "find (\<lambda>l. idString l = idString s) ?e = Some m0"
          using find_unique[OF injE m0e] m0id by simp
        show ?thesis
        proof (cases "s \<in> set ?upd")
          case True
          have "inj_on idString (set ?upd)" using dU by (simp add: distinct_map)
          from find_unique[OF this True] m0id
          have "updated ?upd m0 = applySet (fieldsOf s) m0" by (simp add: updated_def)
          moreover from al True m0e m0id have "aligned lib s m0" by blast
          then have "docJSON (applySet (fieldsOf s) m0) = docJSON s"
            unfolding aligned_def by (intro applySet_aligned) blast+
          ultimately show ?thesis using m by simp
        next
          case False
          with s fe have "stringify (JObj m0) = stringify (JObj s)"
            by (auto simp: toUpdate_mem)
          then have j: "docJSON m0 = docJSON s" by (simp only: stringify_doc_eq_iff)
          have "find (\<lambda>u. idString u = idString m0) ?upd = None"
            using only False m0id by (auto simp: find_None_iff)
          then have "updated ?upd m0 = m0" by (simp add: updated_def)
          with j m show ?thesis by simp
        qed
      next
        case False
        with m0B have m0i: "m0 \<in> set ?ins" by auto
        with insN have "m0 \<in> set ?n" by blast
        with s m0id injN have ms: "m0 = s" by (auto simp: inj_on_def)
        have "s \<notin> set ?upd"
        proof
          assume "s \<in> set ?upd"
          from counterpart[OF this] obtain l where "l \<in> set ?K" "idString l = idString s" by blast
          with disjoint[of l s] m0i ms show False by simp
        qed
        with only m0id have "find (\<lambda>u. idString u = idString m0) ?upd = None"
          by (auto simp: find_None_iff)
        then have "updated ?upd m0 = m0" by (simp add: updated_def)
        with m ms show ?thesis by simp
      qed
    qed
    then have same: "stringify (JObj m) = stringify (JObj s)"
      if "s \<in> set ?n" "find (\<lambda>l. idString l = idString s) e1 = Some m" for s m
      using that by (simp only: stringify_doc_eq_iff)
    show ?thesis
      unfolding toUpdate_def filter_empty_conv
    proof (intro ballI)
      fix s assume s: "s \<in> set ?n"
      show "\<not> (case find (\<lambda>e. idString e = idString s) e1 of None \<Rightarrow> False
          | Some match \<Rightarrow> stringify (JObj match) \<noteq> stringify (JObj s))"
      proof (cases "find (\<lambda>e. idString e = idString s) e1")
        case None
        then show ?thesis by simp
      next
        case (Some m)
        with same[OF s Some] show ?thesis by (simp del: stringify.simps)
      qed
    qed
  qed
  from ins2 del2 upd2 show ?thesis by blast
qed

section \<open>Order of the snapshot names\<close>

lemma digits_small: "n < 10 \<Longrightarrow> digits n = [digitChar n]"
  by simp

lemma digits_two: "10 \<le> n \<Longrightarrow> n < 100 \<Longrightarrow> digits n = [digitChar (n div 10), digitChar (n mod 10)]"
  by (subst digits.simps) simp

lemma digitChar_0: "digitChar 0 = CHR ''0''"
  by (simp add: digitChar_def)

lemma pad2_eq: "n < 100 \<Longrightarrow> pad2 n = [digitChar (n div 10), digitChar (n mod 10)]"
proof (cases "n < 10")
  case True
  then show ?thesis
    by (simp add: pad2_def padStart_def digits_small digitChar_0 numeral_2_eq_2 del: digits.simps)
next
  case False
  assume "n < 100"
  with False show ?thesis
    by (simp add: pad2_def padStart_def digits_two del: digits.simps)
qed

lemma of_char_digitChar: "d < 10 \<Longrightarrow> (of_char (digitChar d) :: nat) = 48 + d"
proof -
  assume "d < 10"
  then have "d \<in> {0, 1, 2, 3, 4, 5, 6, 7, 8, 9}" by auto
  then show ?thesis by (auto simp: digitChar_def)
qed

lemma digitChar_less: "a < 10 \<Longrightarrow> b < 10 \<Longrightarrow> digitChar a < digitChar b \<longleftrightarrow> a < b"
  by (simp add: less_char_def of_char_digitChar)

lemma digitChar_inj: "a < 10 \<Longrightarrow> b < 10 \<Longrightarrow> digitChar a = digitChar b \<longleftrightarrow> a = b"
  by (metis add_left_cancel of_char_digitChar)

lemma pad2_less: "m < n \<Longrightarrow> n < 100 \<Longrightarrow> pad2 m < pad2 n"
proof -
  assume mn: "m < n" and n: "n < 100"
  then have m: "m < 100" by simp
  have d: "m div 10 < 10" "n div 10 < 10" "m mod 10 < 10" "n mod 10 < 10" using m n by auto
  from mn have "m div 10 < n div 10 \<or> m div 10 = n div 10 \<and> m mod 10 < n mod 10"
    by (metis div_le_mono less_or_eq_imp_le linorder_neqE_nat mod_div_decomp nat_add_left_cancel_less not_less)
  then show ?thesis
    using d by (auto simp: pad2_eq m n digitChar_less digitChar_inj)
qed

lemma length_pad2: "n < 100 \<Longrightarrow> length (pad2 n) = 2"
  by (simp add: pad2_eq)

lemma getTimestamp_pad2:
  "getTimestamp x = ''backup_'' @ pad2 (getMonth x + 1) @ pad2 (getDate x)
     @ digits (getFullYear x) @ ''_'' @ pad2 (getHours x) @ pad2 (getMinutes x)
     @ pad2 (getSeconds x)"
  by (simp add: getTimestamp_def pad2_def Let_def del: digits.simps)

lemma less_prefix: "x < y \<Longrightarrow> p @ x < p @ (y :: string)"
  by (simp add: list_less_def lexord_append_leftI)

lemma less_suffixes: "a < b \<Longrightarrow> length a = length b \<Longrightarrow> a @ x < b @ (y :: string)"
  by (simp add: list_less_def lexord_sufI)

lemma pad2_step: "m < n \<Longrightarrow> n < 100 \<Longrightarrow> pad2 m @ x < pad2 n @ y"
  by (rule less_suffixes) (simp_all add: pad2_less length_pad2)

section \<open>Documents of the snapshot only, documents of the store only\<close>

text \<open>
  Claim C5. When the snapshot has exactly one document \<open>d\<close> with the identifier \<open>i\<close> and
  the live collection has none, \<open>d\<close> is the one document of \<open>toInsert\<close> with that
  identifier, it occurs there once, and the first operation issued for the collection is
  the \<^verbatim>\<open>insertMany\<close> of \<open>toInsert\<close>, whose documents are the imported ones unchanged,
  \<^verbatim>\<open>_id\<close> included.
\<close>

theorem insert_snapshot_only:
  assumes one: "withId i newData = [d]"
    and absent: "withId i (colls st cn) = []"
  shows "withId i (toInsert newData (colls st cn)) = [d]
    \<and> count_list (toInsert newData (colls st cn)) d = 1
    \<and> (\<exists>rest. issued (loadCollection lib cn newData st)
          = issued st @ InsertMany cn (toInsert newData (colls st cn)) # rest)"
proof -
  let ?ins = "toInsert newData (colls st cn)"
  have w: "withId i ?ins = [d]" using one absent by (simp add: withId_toInsert)
  then have mem: "d \<in> set ?ins" "idString d = Some i" using withId_single_mem by blast+
  have "count_list (withId i ?ins) d = count_list ?ins d"
    unfolding withId_def using mem(2) by (rule count_list_filter)
  with w have c: "count_list ?ins d = 1" by simp
  from mem have "?ins \<noteq> []" by auto
  then have "\<exists>rest. issued (loadCollection lib cn newData st) = issued st @ InsertMany cn ?ins # rest"
    by (simp add: issued_loadCollection opsFor_def)
  with w c show ?thesis by blast
qed

theorem insert_snapshot_only_witness:
  "withId ''2'' [johnDoe, janeSmith] = [janeSmith]
   \<and> withId ''2'' (colls mockCollections ''patients'') = []
   \<and> toInsert [johnDoe, janeSmith] (colls mockCollections ''patients'') = [janeSmith]
   \<and> withId ''2'' (toInsert [johnDoe, janeSmith] (colls mockCollections ''patients''))
       = [janeSmith]
   \<and> count_list (toInsert [johnDoe, janeSmith] (colls mockCollections ''patients'')) janeSmith = 1
   \<and> (\<exists>rest. issued (loadCollection hexLib ''patients'' [johnDoe, janeSmith] mockCollections)
          = issued mockCollections @ InsertMany ''patients''
              (toInsert [johnDoe, janeSmith] (colls mockCollections ''patients'')) # rest)"
proof -
  have a: "withId ''2'' [johnDoe, janeSmith] = [janeSmith]" by code_simp
  have b: "withId ''2'' (colls mockCollections ''patients'') = []" by code_simp
  have c: "toInsert [johnDoe, janeSmith] (colls mockCollections ''patients'') = [janeSmith]"
    by code_simp
  from insert_snapshot_only[OF a b, of hexLib] a b c show ?thesis by blast
qed

text \<open>
  Claim C6. When the live collection has exactly one document \<open>d\<close> with the identifier
  \<open>i\<close> and the snapshot has none, \<open>d\<close> is the one document of \<open>toDelete\<close> with that
  identifier, it occurs there once, a \<^verbatim>\<open>deleteMany\<close> with the \<^verbatim>\<open>_id\<close>s of \<open>toDelete\<close> is
  issued, and on the live collection that \<^verbatim>\<open>deleteMany\<close> removes exactly the documents
  whose identifier is an identifier of \<open>toDelete\<close>.
\<close>

theorem delete_live_only:
  assumes one: "withId i (colls st cn) = [d]"
    and absent: "withId i newData = []"
  shows "withId i (toDelete newData (colls st cn)) = [d]
    \<and> count_list (toDelete newData (colls st cn)) d = 1
    \<and> (\<exists>pre post. issued (loadCollection lib cn newData st)
          = issued st @ pre @ DeleteMany cn (map get_id (toDelete newData (colls st cn))) # post)
    \<and> deleteMany (map get_id (toDelete newData (colls st cn))) (colls st cn)
        = filter (\<lambda>x. idString x \<notin> idString ` set (toDelete newData (colls st cn)))
            (colls st cn)"
proof -
  let ?del = "toDelete newData (colls st cn)"
  have w: "withId i ?del = [d]" using one absent by (simp add: withId_toDelete)
  then have mem: "d \<in> set ?del" "idString d = Some i" using withId_single_mem by blast+
  have "count_list (withId i ?del) d = count_list ?del d"
    unfolding withId_def using mem(2) by (rule count_list_filter)
  with w have c: "count_list ?del d = 1" by simp
  from mem have ne: "?del \<noteq> []" by auto
  have "issued (loadCollection lib cn newData st)
      = issued st @ (if toInsert newData (colls st cn) = [] then []
           else [InsertMany cn (toInsert newData (colls st cn))])
         @ DeleteMany cn (map get_id ?del) # map (updateFor lib cn) (toUpdate newData (colls st cn))"
    using ne by (simp add: issued_loadCollection opsFor_def)
  then have "\<exists>pre post. issued (loadCollection lib cn newData st)
          = issued st @ pre @ DeleteMany cn (map get_id ?del) # post" by blast
  with w c deleteMany_toDelete[of newData "colls st cn"] show ?thesis by blast
qed

theorem delete_live_only_witness:
  "withId ''1'' (colls mockCollections ''patients'') = [johnDoe]
   \<and> withId ''1'' [janeSmith] = []
   \<and> toDelete [janeSmith] (colls mockCollections ''patients'') = [johnDoe]
   \<and> withId ''1'' (toDelete [janeSmith] (colls mockCollections ''patients'')) = [johnDoe]
   \<and> count_list (toDelete [janeSmith] (colls mockCollections ''patients'')) johnDoe = 1
   \<and> (\<exists>pre post. issued (loadCollection hexLib ''patients'' [janeSmith] mockCollections)
          = issued mockCollections @ pre
            @ DeleteMany ''patients''
                (map get_id (toDelete [janeSmith] (colls mockCollections ''patients''))) # post)
   \<and> deleteMany (map get_id (toDelete [janeSmith] (colls mockCollections ''patients'')))
         (colls mockCollections ''patients'')
        = filter (\<lambda>x. idString x
              \<notin> idString ` set (toDelete [janeSmith] (colls mockCollections ''patients'')))
            (colls mockCollections ''patients'')"
proof -
  have a: "withId ''1'' (colls mockCollections ''patients'') = [johnDoe]" by code_simp
  have b: "withId ''1'' [janeSmith] = []" by code_simp
  have c: "toDelete [janeSmith] (colls mockCollections ''patients'') = [johnDoe]" by code_simp
  from delete_live_only[OF a b, of hexLib] a b c show ?thesis by blast
qed

section \<open>The two versions of \<^verbatim>\<open>loadBackup\<close>\<close>

text \<open>
  Claim C10. On the same snapshot documents and the same live collection, the
  \<^verbatim>\<open>loadBackup\<close> of \<^verbatim>\<open>src/scripts/backup.js\<close> and the one of \<^verbatim>\<open>part_000\<close> compute the
  same \<open>toInsert\<close> and the same \<open>toDelete\<close>; \<^verbatim>\<open>part_000\<close> issues the operations of
  \<^verbatim>\<open>src/scripts/backup.js\<close> followed by its updates, so the bulk inserts and bulk deletes
  of the two are the same.
\<close>

theorem scripts_same_bulk_operations:
  "toInsert_scripts newData existingData = toInsert newData existingData
   \<and> toDelete_scripts newData existingData = toDelete newData existingData
   \<and> issued (loadCollection lib cn newData st)
       = issued (loadCollection_scripts cn newData st)
         @ map (updateFor lib cn) (toUpdate newData (colls st cn))
   \<and> filter (\<lambda>o1. \<not> isUpdate o1) (issued (loadCollection lib cn newData st))
       = filter (\<lambda>o1. \<not> isUpdate o1) (issued (loadCollection_scripts cn newData st))"
proof -
  have a: "toInsert_scripts newData existingData = toInsert newData existingData" for existingData
    by (simp add: toInsert_scripts_def toInsert_def)
  have b: "toDelete_scripts newData existingData = toDelete newData existingData" for existingData
    by (simp add: toDelete_scripts_def toDelete_def)
  have c: "issued (loadCollection lib cn newData st)
       = issued (loadCollection_scripts cn newData st)
         @ map (updateFor lib cn) (toUpdate newData (colls st cn))"
    by (simp add: issued_loadCollection issued_loadCollection_scripts[where lib = lib] a b opsFor_def)
  have "filter (\<lambda>o1. \<not> isUpdate o1) (map (updateFor lib cn) xs) = []" for xs
    by (induction xs) (simp_all add: updateFor_def isUpdate_def)
  with c have "filter (\<lambda>o1. \<not> isUpdate o1) (issued (loadCollection lib cn newData st))
       = filter (\<lambda>o1. \<not> isUpdate o1) (issued (loadCollection_scripts cn newData st))"
    by simp
  with a b c show ?thesis by blast
qed

section \<open>Empty base directory, unreadable collection file\<close>

text \<open>
  Claim C8. When the listing of the base directory has no directory whose name starts
  with \<^verbatim>\<open>backup_\<close>, \<^verbatim>\<open>loadBackup\<close> returns normally, having written the line
  \<^verbatim>\<open>No backups found.\<close> and nothing else: no operation is issued and the store is as
  before.
\<close>

theorem loadBackup_no_backups:
  assumes "readdirTypes fs (resolveBaseDir fs baseDir) = Inr entries"
    and "\<forall>d\<in>set entries. \<not> (isDirectory d \<and> startsWith (name d) ''backup_'')"
  shows "loadBackup lib fs baseDir st = (Inr (), st\<lparr>logged := logged st @ [''No backups found.'']\<rparr>)"
proof -
  from assms(2) have "backupDirsOf entries = []"
    by (simp add: backupDirsOf_Nil_iff list_all_iff)
  with assms(1) show ?thesis
    by (simp add: loadBackup_def loadBackup_with_empty console_log_def)
qed

theorem loadBackup_no_backups_witness:
  "readdirTypes (mockFs noBackupEntries [] (\<lambda>p. Inl (IOError p)))
       (resolveBaseDir (mockFs noBackupEntries [] (\<lambda>p. Inl (IOError p))) (Some ''C:/temp/backups''))
     = Inr noBackupEntries
   \<and> list_all (\<lambda>d. \<not> (isDirectory d \<and> startsWith (name d) ''backup_'')) noBackupEntries
   \<and> loadBackup hexLib (mockFs noBackupEntries [] (\<lambda>p. Inl (IOError p)))
         (Some ''C:/temp/backups'') mockCollections
     = (Inr (), mockCollections\<lparr>logged := logged mockCollections @ [''No backups found.'']\<rparr>)"
proof -
  let ?fs = "mockFs noBackupEntries [] (\<lambda>p. Inl (IOError p))"
  have a: "readdirTypes ?fs (resolveBaseDir ?fs (Some ''C:/temp/backups'')) = Inr noBackupEntries"
    by (simp add: mockFs_def)
  have b: "list_all (\<lambda>d. \<not> (isDirectory d \<and> startsWith (name d) ''backup_'')) noBackupEntries"
    by code_simp
  then have "\<forall>d\<in>set noBackupEntries. \<not> (isDirectory d \<and> startsWith (name d) ''backup_'')"
    by (simp add: list_all_iff)
  from loadBackup_no_backups[OF a this, of hexLib mockCollections] a b show ?thesis by blast
qed

text \<open>
  Claim C9. When the files before \<open>jsonFile\<close> in the snapshot directory are processed
  without error and \<^verbatim>\<open>fs.readJson\<close> rejects on the collection file \<open>jsonFile\<close> with the
  error \<open>e\<close>, \<^verbatim>\<open>loadBackup\<close> rejects with the same \<open>e\<close>, and the state it leaves is the one
  reached before \<open>jsonFile\<close>: no operation is issued for that collection and no later file is
  processed.
\<close>

theorem loadBackup_readJson_error:
  fixes fs :: fsys and baseDir :: "string option" and entries :: "dirent list"
  defines "backupDir \<equiv> path_join (resolveBaseDir fs baseDir) (last (sort (backupDirsOf entries)))"
  assumes dirs: "readdirTypes fs (resolveBaseDir fs baseDir) = Inr entries"
      "backupDirsOf entries \<noteq> []"
    and files: "readdir fs backupDir = Inr (pre @ jsonFile # post)"
    and pre: "forFiles (loadCollection lib) fs backupDir pre
        (console_log (''Loading latest backup: '' @ backupDir) st) = (Inr (), st')"
    and json: "extname jsonFile = ''.json''"
    and bad: "readJson fs (path_join backupDir jsonFile) = Inl e"
  shows "loadBackup lib fs baseDir st = (Inl e, st')"
proof -
  from files have "loadBackup lib fs baseDir st
      = forFiles (loadCollection lib) fs backupDir (pre @ jsonFile # post)
          (console_log (''Loading latest backup: '' @ backupDir) st)"
    unfolding loadBackup_def backupDir_def by (rule loadBackup_with_files[OF dirs])
  also have "\<dots> = (Inl e, st')"
    using pre json bad by (simp add: forFiles_append)
  finally show ?thesis .
qed

theorem loadBackup_readJson_error_witness:
  "readdirTypes corruptFs (resolveBaseDir corruptFs (Some ''C:/temp/backups''))
     = Inr [\<lparr>name = ''backup_10282025_023811'', isDirectory = True\<rparr>]
   \<and> backupDirsOf [\<lparr>name = ''backup_10282025_023811'', isDirectory = True\<rparr>] \<noteq> []
   \<and> readdir corruptFs ''C:/temp/backups/backup_10282025_023811''
       = Inr ([''patients.json''] @ ''appointments.json'' # [''visits.json''])
   \<and> fst (forFiles (loadCollection hexLib) corruptFs ''C:/temp/backups/backup_10282025_023811''
         [''patients.json'']
         (console_log (''Loading latest backup: '' @ ''C:/temp/backups/backup_10282025_023811'')
            mockCollections)) = Inr ()
   \<and> extname ''appointments.json'' = ''.json''
   \<and> readJson corruptFs ''C:/temp/backups/backup_10282025_023811/appointments.json''
       = Inl (JSONError ''Invalid JSON'')
   \<and> fst (loadBackup hexLib corruptFs (Some ''C:/temp/backups'') mockCollections)
       = Inl (JSONError ''Invalid JSON'')
   \<and> issued (snd (loadBackup hexLib corruptFs (Some ''C:/temp/backups'') mockCollections))
       = [InsertMany ''patients'' [janeSmith]]"
proof -
  let ?ents = "[\<lparr>name = ''backup_10282025_023811'', isDirectory = True\<rparr>]"
  let ?dir = "''C:/temp/backups/backup_10282025_023811''"
  let ?st1 = "console_log (''Loading latest backup: '' @ ?dir) mockCollections"
  let ?run = "forFiles (loadCollection hexLib) corruptFs ?dir [''patients.json''] ?st1"
  have a: "readdirTypes corruptFs (resolveBaseDir corruptFs (Some ''C:/temp/backups'')) = Inr ?ents"
    by (simp add: corruptFs_def mockFs_def)
  have b: "backupDirsOf ?ents \<noteq> []" by code_simp
  have d: "path_join (resolveBaseDir corruptFs (Some ''C:/temp/backups''))
      (last (sort (backupDirsOf ?ents))) = ?dir" by code_simp
  have c: "readdir corruptFs ?dir = Inr ([''patients.json''] @ ''appointments.json'' # [''visits.json''])"
    by (simp add: corruptFs_def mockFs_def)
  have p: "fst ?run = Inr ()" by code_simp
  then have p': "?run = (Inr (), snd ?run)" by (simp add: prod_eq_iff)
  have j: "extname ''appointments.json'' = ''.json''" by code_simp
  have r: "readJson corruptFs ''C:/temp/backups/backup_10282025_023811/appointments.json''
      = Inl (JSONError ''Invalid JSON'')" by code_simp
  then have r': "readJson corruptFs (path_join ?dir ''appointments.json'') = Inl (JSONError ''Invalid JSON'')"
    by (simp add: path_join_def)
  have i: "issued (snd ?run) = [InsertMany ''patients'' [janeSmith]]" by code_simp
  have "loadBackup hexLib corruptFs (Some ''C:/temp/backups'') mockCollections
      = (Inl (JSONError ''Invalid JSON''), snd ?run)"
  proof (rule loadBackup_readJson_error[OF a b, where pre = "[''patients.json'']"
          and jsonFile = "''appointments.json''" and post = "[''visits.json'']"])
    show "readdir corruptFs (path_join (resolveBaseDir corruptFs (Some ''C:/temp/backups''))
        (last (sort (backupDirsOf ?ents))))
      = Inr ([''patients.json''] @ ''appointments.json'' # [''visits.json''])"
      unfolding d by (rule c)
    show "forFiles (loadCollection hexLib) corruptFs
        (path_join (resolveBaseDir corruptFs (Some ''C:/temp/backups''))
          (last (sort (backupDirsOf ?ents)))) [''patients.json'']
        (console_log (''Loading latest backup: ''
          @ path_join (resolveBaseDir corruptFs (Some ''C:/temp/backups''))
              (last (sort (backupDirsOf ?ents)))) mockCollections) = (Inr (), snd ?run)"
      unfolding d by (rule p')
    show "extname ''appointments.json'' = ''.json''" by (rule j)
    show "readJson corruptFs (path_join (path_join (resolveBaseDir corruptFs (Some ''C:/temp/backups''))
        (last (sort (backupDirsOf ?ents)))) ''appointments.json'') = Inl (JSONError ''Invalid JSON'')"
      unfolding d by (rule r')
  qed
  with a b c p j r i show ?thesis by simp
qed

section \<open>Documents without identifier\<close>

text \<open>
  Claim C7 says that a document without identifier is in none of \<open>toInsert\<close>, \<open>toUpdate\<close>
  and \<open>toDelete\<close> and that no operation is issued for it. The scripts do otherwise: an
  imported document without \<^verbatim>\<open>_id\<close> is in \<open>toInsert\<close> and is inserted.
\<close>

theorem no_identifier_counterexample:
  "\<not> hasId [(''name'', JStr ''Jane Smith'')]
   \<and> toInsert [[(''name'', JStr ''Jane Smith'')]] (colls mockCollections ''visits'')
       = [[(''name'', JStr ''Jane Smith'')]]
   \<and> issued (loadCollection hexLib ''visits'' [[(''name'', JStr ''Jane Smith'')]] mockCollections)
       = [InsertMany ''visits'' [[(''name'', JStr ''Jane Smith'')]]]
   \<and> issued (loadCollection_scripts ''visits'' [[(''name'', JStr ''Jane Smith'')]] mockCollections)
       = [InsertMany ''visits'' [[(''name'', JStr ''Jane Smith'')]]]"
  by code_simp

text \<open>
  Claim C7, amended. A document without identifier (no \<^verbatim>\<open>_id\<close>, a \<^verbatim>\<open>null\<close> one, or one
  whose string form is empty) is left out of the identifier lists \<open>newIds\<close> and
  \<open>existingIds\<close> only, so it never matches by identifier: an imported one is always in
  \<open>toInsert\<close> and is inserted, a live one is always in \<open>toDelete\<close>, and an imported one is
  in \<open>toUpdate\<close> only if some live document has no identifier either.
\<close>

theorem no_identifier_classified:
  assumes noId: "\<not> hasId d"
  shows "newIds (pre @ d # post) = newIds (pre @ post)
    \<and> existingIds (pre @ d # post) = existingIds (pre @ post)
    \<and> toInsert (pre @ d # post) existingData
        = toInsert pre existingData @ d # toInsert post existingData
    \<and> toDelete newData (pre @ d # post)
        = toDelete newData pre @ d # toDelete newData post
    \<and> (\<exists>rest. issued (loadCollection lib cn (pre @ d # post) st)
          = issued st @ InsertMany cn (toInsert (pre @ d # post) (colls st cn)) # rest)
    \<and> (d \<in> set (toUpdate (pre @ d # post) existingData)
          \<longrightarrow> (\<exists>l\<in>set existingData. \<not> hasId l))"
proof -
  have a: "newIds (pre @ d # post) = newIds (pre @ post)" using noId by (rule newIds_drop)
  then have b: "existingIds (pre @ d # post) = existingIds (pre @ post)"
    by (simp add: existingIds_newIds)
  have c: "toInsert (pre @ d # post) existingData
        = toInsert pre existingData @ d # toInsert post existingData" for existingData
    using not_hasId_not_existing[OF noId] by (simp add: toInsert_def)
  have e: "toDelete newData (pre @ d # post)
        = toDelete newData pre @ d # toDelete newData post"
    using not_hasId_not_new[OF noId] by (simp add: toDelete_def)
  from c[of "colls st cn"] have "toInsert (pre @ d # post) (colls st cn) \<noteq> []" by simp
  then have f: "\<exists>rest. issued (loadCollection lib cn (pre @ d # post) st)
          = issued st @ InsertMany cn (toInsert (pre @ d # post) (colls st cn)) # rest"
    by (simp add: issued_loadCollection opsFor_def)
  have g: "d \<in> set (toUpdate (pre @ d # post) existingData)
          \<longrightarrow> (\<exists>l\<in>set existingData. \<not> hasId l)"
  proof
    assume "d \<in> set (toUpdate (pre @ d # post) existingData)"
    then obtain m where "find (\<lambda>l. idString l = idString d) existingData = Some m"
      by (auto simp: toUpdate_mem)
    then have "m \<in> set existingData" "idString m = idString d"
      by (auto simp: find_Some_iff)
    with noId have "\<not> hasId m" by (simp add: hasId_def)
    with \<open>m \<in> set existingData\<close> show "\<exists>l\<in>set existingData. \<not> hasId l" by blast
  qed
  from a b c e f g show ?thesis by blast
qed

theorem no_identifier_classified_witness:
  "\<not> hasId [(''name'', JStr ''Jane Smith'')]
   \<and> newIds ([johnDoe] @ [(''name'', JStr ''Jane Smith'')] # [janeSmith]) = newIds ([johnDoe] @ [janeSmith])
   \<and> existingIds ([johnDoe] @ [(''name'', JStr ''Jane Smith'')] # [janeSmith])
       = existingIds ([johnDoe] @ [janeSmith])
   \<and> toInsert ([johnDoe] @ [(''name'', JStr ''Jane Smith'')] # [janeSmith]) [[(''name'', JStr ''Jane'')]]
       = toInsert [johnDoe] [[(''name'', JStr ''Jane'')]] @ [(''name'', JStr ''Jane Smith'')]
           # toInsert [janeSmith] [[(''name'', JStr ''Jane'')]]
   \<and> toDelete [johnDoe] ([johnDoe] @ [(''name'', JStr ''Jane Smith'')] # [janeSmith])
       = toDelete [johnDoe] [johnDoe] @ [(''name'', JStr ''Jane Smith'')] # toDelete [johnDoe] [janeSmith]
   \<and> (\<exists>rest. issued (loadCollection hexLib ''patients''
            ([johnDoe] @ [(''name'', JStr ''Jane Smith'')] # [janeSmith]) mockCollections)
          = issued mockCollections @ InsertMany ''patients''
              (toInsert ([johnDoe] @ [(''name'', JStr ''Jane Smith'')] # [janeSmith])
                 (colls mockCollections ''patients'')) # rest)
   \<and> [(''name'', JStr ''Jane Smith'')]
       \<in> set (toUpdate ([johnDoe] @ [(''name'', JStr ''Jane Smith'')] # [janeSmith])
                [[(''name'', JStr ''Jane'')]])
   \<and> list_ex (\<lambda>l. \<not> hasId l) [[(''name'', JStr ''Jane'')]]"
proof -
  let ?d = "[(''name'', JStr ''Jane Smith'')]"
  have h: "\<not> hasId ?d" by code_simp
  have u: "?d \<in> set (toUpdate ([johnDoe] @ ?d # [janeSmith]) [[(''name'', JStr ''Jane'')]])"
    by code_simp
  have l: "list_ex (\<lambda>l. \<not> hasId l) [[(''name'', JStr ''Jane'')]]" by code_simp
  from no_identifier_classified[OF h, of "[johnDoe]" "[janeSmith]" "[[(''name'', JStr ''Jane'')]]"
      "[johnDoe]" hexLib "''patients''" mockCollections] h u l
  show ?thesis by blast
qed

section \<open>Documents of both sets\<close>

text \<open>
  In \<^verbatim>\<open>part_000\<close>, when the snapshot has exactly one document \<open>s\<close> with the identifier
  \<open>i\<close>, the live collection exactly one, \<open>l\<close>, and their contents without the identifier
  differ, \<open>s\<close> is the one document of \<open>toUpdate\<close> with that identifier and one
  \<^verbatim>\<open>updateOne\<close> is issued for it: its query is the identifier of \<open>s\<close> as
  \<^verbatim>\<open>ObjectId.isValid\<close> and \<^verbatim>\<open>new ObjectId\<close> make it, and it sets the fields of \<open>s\<close> other than
  \<^verbatim>\<open>_id\<close>.
\<close>

theorem update_differing_content:
  assumes new: "withId i newData = [s]"
    and live: "withId i (colls st cn) = [l]"
    and differ: "content s \<noteq> content l"
  shows "withId i (toUpdate newData (colls st cn)) = [s]
    \<and> map (updateFor lib cn) (withId i (toUpdate newData (colls st cn)))
        = [UpdateOne cn (queryId lib (get_id s)) (fieldsOf s)]
    \<and> (\<exists>pre post. issued (loadCollection lib cn newData st)
          = issued st @ pre @ UpdateOne cn (queryId lib (get_id s)) (fieldsOf s) # post)"
proof -
  let ?upd = "toUpdate newData (colls st cn)"
  from differ have "docJSON l \<noteq> docJSON s" using docJSON_eq_content by metis
  then have w: "withId i ?upd = [s]" by (simp add: withId_toUpdate_eq[OF live] new)
  then have u: "map (updateFor lib cn) (withId i ?upd)
      = [UpdateOne cn (queryId lib (get_id s)) (fieldsOf s)]"
    by (simp add: updateFor_def)
  from w have "s \<in> set ?upd" using withId_single_mem by blast
  then obtain us vs where "?upd = us @ s # vs" by (meson split_list)
  then have "issued (loadCollection lib cn newData st)
      = issued st @ ((if toInsert newData (colls st cn) = [] then []
              else [InsertMany cn (toInsert newData (colls st cn))])
           @ (if toDelete newData (colls st cn) = [] then []
              else [DeleteMany cn (map get_id (toDelete newData (colls st cn)))])
           @ map (updateFor lib cn) us)
         @ UpdateOne cn (queryId lib (get_id s)) (fieldsOf s) # map (updateFor lib cn) vs"
    by (simp add: issued_loadCollection opsFor_def updateFor_def)
  then have "\<exists>pre post. issued (loadCollection lib cn newData st)
          = issued st @ pre @ UpdateOne cn (queryId lib (get_id s)) (fieldsOf s) # post"
    by blast
  with w u show ?thesis by blast
qed

theorem update_differing_content_witness:
  "withId ''1'' [johnDoe26] = [johnDoe26]
   \<and> withId ''1'' (colls mockCollections ''patients'') = [johnDoe]
   \<and> content johnDoe26 \<noteq> content johnDoe
   \<and> withId ''1'' (toUpdate [johnDoe26] (colls mockCollections ''patients'')) = [johnDoe26]
   \<and> map (updateFor hexLib ''patients'')
         (withId ''1'' (toUpdate [johnDoe26] (colls mockCollections ''patients'')))
       = [UpdateOne ''patients'' (queryId hexLib (get_id johnDoe26)) (fieldsOf johnDoe26)]
   \<and> (\<exists>pre post. issued (loadCollection hexLib ''patients'' [johnDoe26] mockCollections)
          = issued mockCollections @ pre
            @ UpdateOne ''patients'' (queryId hexLib (get_id johnDoe26)) (fieldsOf johnDoe26) # post)"
proof -
  have a: "withId ''1'' [johnDoe26] = [johnDoe26]" by code_simp
  have b: "withId ''1'' (colls mockCollections ''patients'') = [johnDoe]" by code_simp
  have c: "content johnDoe26 \<noteq> content johnDoe" by code_simp
  from update_differing_content[OF a b c, of hexLib] a b c show ?thesis by blast
qed

text \<open>
  Claim C1. The \<^verbatim>\<open>loadBackup\<close> of \<^verbatim>\<open>src/scripts/backup.js\<close> has no update step. On the
  changed patient of the repository's test (the same \<^verbatim>\<open>_id\<close>, the age 26 in the snapshot
  and 25 in the store) it issues no operation and reports the collection as up to date,
  where \<^verbatim>\<open>part_000\<close> issues the \<^verbatim>\<open>updateOne\<close> the test expects.
\<close>

theorem scripts_issue_no_update:
  "withId ''1'' [johnDoe26] = [johnDoe26]
   \<and> withId ''1'' (colls mockCollections ''patients'') = [johnDoe]
   \<and> content johnDoe26 \<noteq> content johnDoe
   \<and> issued (loadCollection_scripts ''patients'' [johnDoe26] mockCollections) = []
   \<and> logged (loadCollection_scripts ''patients'' [johnDoe26] mockCollections)
       = [''Collection '' @ [quote] @ ''patients'' @ [quote] @ '' is already up-to-date'']
   \<and> issued (loadCollection hexLib ''patients'' [johnDoe26] mockCollections)
       = [UpdateOne ''patients'' (Some (JStr ''1'')) [(''name'', JStr ''John Doe''), (''age'', JNum 26)]]"
  by code_simp

text \<open>
  Claim C4 says that a document whose identifier is in both sets with the same content
  apart from the identifier is in none of \<open>toInsert\<close>, \<open>toUpdate\<close>, \<open>toDelete\<close> and that
  nothing is issued for it. The scripts compare the serialisations of the whole documents:
  with \<^verbatim>\<open>_id\<close> written last in the snapshot, the same identifier and the same other
  fields, the document is in \<open>toUpdate\<close> and an \<^verbatim>\<open>updateOne\<close> is issued.
\<close>

theorem same_content_counterexample:
  "''1'' \<in> set (newIds [johnDoeIdLast])
   \<and> ''1'' \<in> set (existingIds (colls mockCollections ''patients''))
   \<and> withId ''1'' [johnDoeIdLast] = [johnDoeIdLast]
   \<and> withId ''1'' (colls mockCollections ''patients'') = [johnDoe]
   \<and> get_id johnDoeIdLast = get_id johnDoe
   \<and> fieldsOf johnDoeIdLast = fieldsOf johnDoe
   \<and> toUpdate [johnDoeIdLast] (colls mockCollections ''patients'') = [johnDoeIdLast]
   \<and> issued (loadCollection hexLib ''patients'' [johnDoeIdLast] mockCollections)
       = [UpdateOne ''patients'' (Some (JStr ''1''))
            [(''name'', JStr ''John Doe''), (''age'', JNum 25)]]"
  by code_simp

text \<open>
  The coercion of the update loop can address an update to another document. An imported
  document whose \<^verbatim>\<open>_id\<close> is a string of 24 hexadecimal digits in upper case is updated
  through the \<^verbatim>\<open>ObjectId\<close> of these digits, which here is the \<^verbatim>\<open>_id\<close> of a live document
  that the snapshot has unchanged.
\<close>

lemma coerced_update_reaches_other:
  "docJSON (upperCaseBackup ! 0) = docJSON (colls upperCaseStore ''patients'' ! 0)
   \<and> toUpdate upperCaseBackup (colls upperCaseStore ''patients'') = [upperCaseBackup ! 1]
   \<and> \<not> keepsId hexLib (upperCaseBackup ! 1)
   \<and> issued (loadCollection hexLib ''patients'' upperCaseBackup upperCaseStore)
       = [UpdateOne ''patients'' (Some (JOid ''507f1f77bcf86cd799439011'')) [(''visits'', JNum 2)]]
   \<and> colls (loadCollection hexLib ''patients'' upperCaseBackup upperCaseStore) ''patients''
       = [[(''_id'', JOid ''507f1f77bcf86cd799439011''), (''visits'', JNum 2)],
          [(''_id'', JStr ''507F1F77BCF86CD799439011''), (''visits'', JNum 1)]]"
  by code_simp

text \<open>
  Claim C4, amended. Let the identifier \<open>i\<close> be in \<open>newIds\<close> and in \<open>existingIds\<close>, the
  snapshot have exactly one document \<open>s\<close> with it, the live collection exactly one, \<open>l\<close>,
  and the two have the same JSON image (the same fields in the same order, \<^verbatim>\<open>_id\<close>
  included, with the same serialised values); and let the coercion keep the identifier
  of every document that is to be updated (a valid \<^verbatim>\<open>_id\<close> and the \<^verbatim>\<open>ObjectId\<close> made of
  it have the same string form). Then no document with the identifier \<open>i\<close> is in
  \<open>toInsert\<close>, \<open>toDelete\<close> or \<open>toUpdate\<close>; none of the operations the run issues reaches \<open>l\<close>: no
  document of its identifier is inserted, no delete names its \<^verbatim>\<open>_id\<close>, no update is
  addressed to its \<^verbatim>\<open>_id\<close>; and \<open>l\<close> is in the collection after the run as it was before.
\<close>

theorem same_document_untouched:
  assumes inNew: "i \<in> set (newIds newData)"
    and inLive: "i \<in> set (existingIds (colls st cn))"
    and new: "withId i newData = [s]"
    and live: "withId i (colls st cn) = [l]"
    and same: "docJSON s = docJSON l"
    and others: "list_all (keepsId lib) (toUpdate newData (colls st cn))"
  shows "withId i (toInsert newData (colls st cn)) = []
    \<and> withId i (toDelete newData (colls st cn)) = []
    \<and> withId i (toUpdate newData (colls st cn)) = []
    \<and> list_all (\<lambda>o1. \<not> reaches l o1)
         (drop (length (issued st)) (issued (loadCollection lib cn newData st)))
    \<and> l \<in> set (colls (loadCollection lib cn newData st) cn)"
proof -
  let ?e = "colls st cn"
  let ?ins = "toInsert newData ?e"
  let ?del = "toDelete newData ?e"
  let ?upd = "toUpdate newData ?e"
  from withId_single_mem[OF live] have le: "l \<in> set ?e" and li: "idString l = Some i"
    by blast+
  have a: "withId i ?ins = []"
    using inLive by (auto simp: withId_Nil_iff toInsert_mem includes_str_def)
  have b: "withId i ?del = []"
    using inNew by (auto simp: withId_Nil_iff toDelete_mem includes_str_def)
  have c: "withId i ?upd = []"
    using same by (simp add: withId_toUpdate_eq[OF live] new)
  have nI: "\<not> reaches l (InsertMany cn ?ins)"
    using a li by (auto simp: withId_Nil_iff list_ex_iff)
  have nD: "bsonId (get_id l) \<notin> set (map bsonId (map get_id ?del))"
  proof
    assume "bsonId (get_id l) \<in> set (map bsonId (map get_id ?del))"
    then obtain t where t: "t \<in> set ?del" "bsonId (get_id t) = bsonId (get_id l)" by auto
    from bsonId_eq_idString[OF t(2)] li have "idString t = Some i" by simp
    with b t(1) show False by (simp add: withId_Nil_iff)
  qed
  have nU: "bsonId (queryId lib (get_id u)) \<noteq> bsonId (get_id l)" if u: "u \<in> set ?upd" for u
  proof
    assume eq: "bsonId (queryId lib (get_id u)) = bsonId (get_id l)"
    from others u have "keepsId lib u" by (simp add: list_all_iff)
    from keepsId_query[OF this eq li] c u show False by (simp add: withId_Nil_iff)
  qed
  have "list_all (\<lambda>o1. \<not> reaches l o1) (opsFor lib cn ?ins ?del ?upd)"
    using nI nD nU by (simp add: opsFor_def list_all_iff updateFor_def)
  then have ops: "list_all (\<lambda>o1. \<not> reaches l o1)
      (drop (length (issued st)) (issued (loadCollection lib cn newData st)))"
    by (simp add: issued_loadCollection)
  have kept: "l \<in> set (colls (loadCollection lib cn newData st) cn)"
    unfolding colls_loadCollection
  proof (rule foldl_stepUpdate_keeps)
    show "l \<in> set (deleteMany (map get_id ?del) (insertMany (createPk st) ?ins ?e))"
      using nD set_insertMany[OF le, of "createPk st" ?ins] by (simp add: deleteMany_def)
    show "\<forall>u\<in>set ?upd. bsonId (queryId lib (get_id u)) \<noteq> bsonId (get_id l)"
      using nU by blast
  qed
  from a b c ops kept show ?thesis by blast
qed

theorem same_document_untouched_witness:
  "''507f1f77bcf86cd799439012'' \<in> set (newIds nativeBackup)
   \<and> ''507f1f77bcf86cd799439012'' \<in> set (existingIds (colls nativeStore ''patients''))
   \<and> withId ''507f1f77bcf86cd799439012'' nativeBackup = [nativeBackup ! 1]
   \<and> withId ''507f1f77bcf86cd799439012'' (colls nativeStore ''patients'') = [nativePatients ! 1]
   \<and> docJSON (nativeBackup ! 1) = docJSON (nativePatients ! 1)
   \<and> list_all (keepsId hexLib) (toUpdate nativeBackup (colls nativeStore ''patients''))
   \<and> toUpdate nativeBackup (colls nativeStore ''patients'') = [nativeBackup ! 0]
   \<and> withId ''507f1f77bcf86cd799439012'' (toInsert nativeBackup (colls nativeStore ''patients'')) = []
   \<and> withId ''507f1f77bcf86cd799439012'' (toDelete nativeBackup (colls nativeStore ''patients'')) = []
   \<and> withId ''507f1f77bcf86cd799439012'' (toUpdate nativeBackup (colls nativeStore ''patients'')) = []
   \<and> list_all (\<lambda>o1. \<not> reaches (nativePatients ! 1) o1)
         (drop (length (issued nativeStore))
            (issued (loadCollection hexLib ''patients'' nativeBackup nativeStore)))
   \<and> nativePatients ! 1
        \<in> set (colls (loadCollection hexLib ''patients'' nativeBackup nativeStore) ''patients'')"
proof -
  have a: "''507f1f77bcf86cd799439012'' \<in> set (newIds nativeBackup)" by code_simp
  have b: "''507f1f77bcf86cd799439012'' \<in> set (existingIds (colls nativeStore ''patients''))"
    by code_simp
  have c: "withId ''507f1f77bcf86cd799439012'' nativeBackup = [nativeBackup ! 1]" by code_simp
  have d: "withId ''507f1f77bcf86cd799439012'' (colls nativeStore ''patients'') = [nativePatients ! 1]"
    by code_simp
  have e: "docJSON (nativeBackup ! 1) = docJSON (nativePatients ! 1)" by code_simp
  have f: "list_all (keepsId hexLib) (toUpdate nativeBackup (colls nativeStore ''patients''))"
    by code_simp
  have g: "toUpdate nativeBackup (colls nativeStore ''patients'') = [nativeBackup ! 0]"
    by code_simp
  from same_document_untouched[OF a b c d e f] a b c d e f g show ?thesis by blast
qed

section \<open>The latest snapshot\<close>

text \<open>
  Claim C2. The name of a snapshot has the month and the day before the year. Of the
  snapshots written on 31 December 2024 and on 1 January 2025, the later has the smaller
  name, and \<^verbatim>\<open>loadBackup\<close>, which sorts the names and takes the last one, loads the
  snapshot of 2024 while it reports loading the latest one.
\<close>

theorem latest_backup_across_years:
  "before newYearsEve newYearsDay
   \<and> getTimestamp newYearsEve = ''backup_12312024_235959''
   \<and> getTimestamp newYearsDay = ''backup_01012025_000000''
   \<and> getTimestamp newYearsDay < getTimestamp newYearsEve
   \<and> loadBackup hexLib twoYearsFs (Some ''C:/temp/backups'') mockCollections
      = (Inr (), mockCollections\<lparr>logged := [''Loading latest backup: C:/temp/backups/backup_12312024_235959'']\<rparr>)"
proof -
  have a: "before newYearsEve newYearsDay" by code_simp
  have b: "getTimestamp newYearsEve = ''backup_12312024_235959''" by code_simp
  have c: "getTimestamp newYearsDay = ''backup_01012025_000000''" by code_simp
  have d: "getTimestamp newYearsDay < getTimestamp newYearsEve" by code_simp
  have e: "sort [''backup_12312024_235959'', ''backup_01012025_000000''] = [''backup_01012025_000000'', ''backup_12312024_235959'']"
    by code_simp
  have f: "loadBackup hexLib twoYearsFs (Some ''C:/temp/backups'') mockCollections
      = (Inr (), mockCollections\<lparr>logged := [''Loading latest backup: C:/temp/backups/backup_12312024_235959'']\<rparr>)"
    unfolding loadBackup_def loadBackup_with_def twoYearsFs_def mockFs_def backupDirsOf_def
    by (simp add: b c e Let_def resolveBaseDir_def startsWith_def path_join_def console_log_def mockCollections_def)
  from a b c d f show ?thesis by blast
qed

text \<open>
  Within one calendar year the names are ordered as the instants are: of two instants of
  the same year, the later one in range of the getters, the earlier has the smaller name.
\<close>

theorem same_year_names_ordered:
  assumes vb: "validTime b"
    and year: "getFullYear a = getFullYear b"
    and bef: "before a b"
  shows "getTimestamp a < getTimestamp b"
proof -
  from bef year consider
      (month) "getMonth a < getMonth b"
    | (day) "getMonth a = getMonth b" "getDate a < getDate b"
    | (hour) "getMonth a = getMonth b" "getDate a = getDate b" "getHours a < getHours b"
    | (minute) "getMonth a = getMonth b" "getDate a = getDate b" "getHours a = getHours b"
        "getMinutes a < getMinutes b"
    | (second) "getMonth a = getMonth b" "getDate a = getDate b" "getHours a = getHours b"
        "getMinutes a = getMinutes b" "getSeconds a < getSeconds b"
    by (auto simp: before_def)
  then show ?thesis
  proof cases
    case month
    with vb have "getMonth a + 1 < getMonth b + 1" "getMonth b + 1 < 100"
      by (simp_all add: validTime_def)
    then show ?thesis unfolding getTimestamp_pad2
      by (intro less_prefix pad2_step)
  next
    case day
    with vb have "getDate b < 100" by (simp add: validTime_def)
    with day show ?thesis unfolding getTimestamp_pad2
      by (simp only:) (intro less_prefix pad2_step)
  next
    case hour
    with vb have "getHours b < 100" by (simp add: validTime_def)
    with hour year show ?thesis unfolding getTimestamp_pad2
      by (simp only:) (intro less_prefix pad2_step)
  next
    case minute
    with vb have "getMinutes b < 100" by (simp add: validTime_def)
    with minute year show ?thesis unfolding getTimestamp_pad2
      by (simp only:) (intro less_prefix pad2_step)
  next
    case second
    with vb have "getSeconds b < 100" by (simp add: validTime_def)
    then have "pad2 (getSeconds a) @ [] < pad2 (getSeconds b) @ []"
      using second(5) by (intro pad2_step)
    with second year show ?thesis unfolding getTimestamp_pad2
      by (simp only: append_Nil2) (intro less_prefix)
  qed
qed

theorem same_year_names_ordered_witness:
  "validTime newYearsEve
   \<and> getFullYear (newYearsEve\<lparr>getMonth := 0, getDate := 1\<rparr>) = getFullYear newYearsEve
   \<and> before (newYearsEve\<lparr>getMonth := 0, getDate := 1\<rparr>) newYearsEve
   \<and> getTimestamp (newYearsEve\<lparr>getMonth := 0, getDate := 1\<rparr>) < getTimestamp newYearsEve"
proof -
  have a: "validTime newYearsEve" by code_simp
  have b: "getFullYear (newYearsEve\<lparr>getMonth := 0, getDate := 1\<rparr>) = getFullYear newYearsEve"
    by code_simp
  have c: "before (newYearsEve\<lparr>getMonth := 0, getDate := 1\<rparr>) newYearsEve" by code_simp
  from same_year_names_ordered[OF a b c] a b c show ?thesis by blast
qed

section \<open>Running twice\<close>

text \<open>
  Claim C3 says that after one run a second run of the same snapshot issues nothing. An
  \<^verbatim>\<open>updateOne\<close> with \<^verbatim>\<open>$set\<close> leaves the fields the snapshot does not have: with a live
  patient that has one more field than the imported one, the first run issues an update,
  the document still differs, and the second run issues the same update again.
\<close>

theorem twice_counterexample:
  "issued (loadCollection hexLib ''patients'' [johnDoe26] phoneStore)
     = [UpdateOne ''patients'' (Some (JStr ''1'')) [(''name'', JStr ''John Doe''), (''age'', JNum 26)]]
   \<and> colls (loadCollection hexLib ''patients'' [johnDoe26] phoneStore) ''patients''
     = [[(''_id'', JStr ''1''), (''name'', JStr ''John Doe''), (''age'', JNum 26),
         (''phone'', JStr ''555-0100'')]]
   \<and> issued (loadCollection hexLib ''patients'' [johnDoe26]
        (loadCollection hexLib ''patients'' [johnDoe26] phoneStore))
     = [UpdateOne ''patients'' (Some (JStr ''1'')) [(''name'', JStr ''John Doe''), (''age'', JNum 26)],
        UpdateOne ''patients'' (Some (JStr ''1'')) [(''name'', JStr ''John Doe''), (''age'', JNum 26)]]"
  by code_simp

text \<open>
  The store keeps \<^verbatim>\<open>_id\<close> as the first field of a document: an imported document with
  \<^verbatim>\<open>_id\<close> written last is inserted by the first run, read back with \<^verbatim>\<open>_id\<close> first by the
  second, and updated by it, to no effect.
\<close>

lemma inserted_id_last_updated:
  "issued (loadCollection hexLib ''visits'' [johnDoeIdLast] mockCollections)
     = [InsertMany ''visits'' [johnDoeIdLast]]
   \<and> colls (loadCollection hexLib ''visits'' [johnDoeIdLast] mockCollections) ''visits''
     = [johnDoe]
   \<and> issued (loadCollection hexLib ''visits'' [johnDoeIdLast]
        (loadCollection hexLib ''visits'' [johnDoeIdLast] mockCollections))
     = [InsertMany ''visits'' [johnDoeIdLast],
        UpdateOne ''visits'' (Some (JStr ''1'')) [(''name'', JStr ''John Doe''), (''age'', JNum 25)]]
   \<and> colls (loadCollection hexLib ''visits'' [johnDoeIdLast]
        (loadCollection hexLib ''visits'' [johnDoeIdLast] mockCollections)) ''visits''
     = [johnDoe]"
  by code_simp

text \<open>
  Claim C3, amended. Let every document of the snapshot and of the live collection have
  an identifier, no two documents of one set the same identifier; let every imported
  document that is to be inserted have \<^verbatim>\<open>_id\<close> as its first field, as the store keeps
  it; and let every imported document that is to be updated be aligned with the live
  document of its identifier: the query identifier of its update is the stored one, the
  field names of the live document are the first field names of the imported one, in the
  same order, the further fields of the imported document are in the lexicographic order
  of their names, the names are plain, and the identifiers have the same JSON image. Then,
  run on the store the first run leaves, the same snapshot gives empty \<open>toInsert\<close>,
  \<open>toDelete\<close> and \<open>toUpdate\<close>, and the second run issues no operation.
\<close>

theorem second_run_issues_nothing:
  assumes idsN: "list_all hasId newData"
    and idsE: "list_all hasId (colls st cn)"
    and uniqN: "distinct (map idString newData)"
    and uniqE: "distinct (map idString (colls st cn))"
    and first: "list_all idFirst (toInsert newData (colls st cn))"
    and al: "\<forall>s\<in>set (toUpdate newData (colls st cn)). \<forall>l\<in>set (colls st cn).
        idString l = idString s \<longrightarrow> aligned lib s l"
  shows "toInsert newData (colls (loadCollection lib cn newData st) cn) = []
    \<and> toDelete newData (colls (loadCollection lib cn newData st) cn) = []
    \<and> toUpdate newData (colls (loadCollection lib cn newData st) cn) = []
    \<and> issued (loadCollection lib cn newData (loadCollection lib cn newData st))
        = issued (loadCollection lib cn newData st)"
proof -
  from second_run_classes[OF assms]
  have cl: "toInsert newData (colls (loadCollection lib cn newData st) cn) = []
    \<and> toDelete newData (colls (loadCollection lib cn newData st) cn) = []
    \<and> toUpdate newData (colls (loadCollection lib cn newData st) cn) = []" .
  then have "issued (loadCollection lib cn newData (loadCollection lib cn newData st))
        = issued (loadCollection lib cn newData st)"
    by (simp add: issued_loadCollection[of lib cn newData "loadCollection lib cn newData st"]
        opsFor_def)
  with cl show ?thesis by blast
qed

theorem second_run_issues_nothing_witness:
  "list_all hasId nativeBackup
   \<and> list_all hasId (colls nativeStore ''patients'')
   \<and> distinct (map idString nativeBackup)
   \<and> distinct (map idString (colls nativeStore ''patients''))
   \<and> list_all idFirst (toInsert nativeBackup (colls nativeStore ''patients''))
   \<and> list_all (\<lambda>s. list_all (\<lambda>l. idString l = idString s \<longrightarrow> aligned hexLib s l)
          (colls nativeStore ''patients''))
        (toUpdate nativeBackup (colls nativeStore ''patients''))
   \<and> issued (loadCollection hexLib ''patients'' nativeBackup nativeStore)
       = [InsertMany ''patients'' [nativeBackup ! 2],
          DeleteMany ''patients'' [Some (JOid ''507f1f77bcf86cd799439013'')],
          UpdateOne ''patients'' (Some (JOid ''507f1f77bcf86cd799439011''))
            [(''name'', JStr ''John Doe''), (''age'', JNum 26),
             (''email'', JStr ''john@example.org''), (''phone'', JStr ''555-0100'')]]
   \<and> colls (loadCollection hexLib ''patients'' nativeBackup nativeStore) ''patients''
       = [[(''_id'', JOid ''507f1f77bcf86cd799439011''), (''name'', JStr ''John Doe''),
           (''age'', JNum 26), (''email'', JStr ''john@example.org''),
           (''phone'', JStr ''555-0100'')],
          nativePatients ! 1, nativeBackup ! 2]
   \<and> toInsert nativeBackup (colls (loadCollection hexLib ''patients'' nativeBackup nativeStore) ''patients'') = []
   \<and> toDelete nativeBackup (colls (loadCollection hexLib ''patients'' nativeBackup nativeStore) ''patients'') = []
   \<and> toUpdate nativeBackup (colls (loadCollection hexLib ''patients'' nativeBackup nativeStore) ''patients'') = []
   \<and> issued (loadCollection hexLib ''patients'' nativeBackup
         (loadCollection hexLib ''patients'' nativeBackup nativeStore))
       = issued (loadCollection hexLib ''patients'' nativeBackup nativeStore)"
proof -
  have a: "list_all hasId nativeBackup" by code_simp
  have b: "list_all hasId (colls nativeStore ''patients'')" by code_simp
  have c: "distinct (map idString nativeBackup)" by code_simp
  have d: "distinct (map idString (colls nativeStore ''patients''))" by code_simp
  have i: "list_all idFirst (toInsert nativeBackup (colls nativeStore ''patients''))"
    by code_simp
  have e: "list_all (\<lambda>s. list_all (\<lambda>l. idString l = idString s \<longrightarrow> aligned hexLib s l)
          (colls nativeStore ''patients''))
        (toUpdate nativeBackup (colls nativeStore ''patients''))" by code_simp
  then have e': "\<forall>s\<in>set (toUpdate nativeBackup (colls nativeStore ''patients'')).
      \<forall>l\<in>set (colls nativeStore ''patients''). idString l = idString s \<longrightarrow> aligned hexLib s l"
    unfolding list_all_iff by blast
  have f: "issued (loadCollection hexLib ''patients'' nativeBackup nativeStore)
       = [InsertMany ''patients'' [nativeBackup ! 2],
          DeleteMany ''patients'' [Some (JOid ''507f1f77bcf86cd799439013'')],
          UpdateOne ''patients'' (Some (JOid ''507f1f77bcf86cd799439011''))
            [(''name'', JStr ''John Doe''), (''age'', JNum 26),
             (''email'', JStr ''john@example.org''), (''phone'', JStr ''555-0100'')]]"
    by code_simp
  have g: "colls (loadCollection hexLib ''patients'' nativeBackup nativeStore) ''patients''
       = [[(''_id'', JOid ''507f1f77bcf86cd799439011''), (''name'', JStr ''John Doe''),
           (''age'', JNum 26), (''email'', JStr ''john@example.org''),
           (''phone'', JStr ''555-0100'')],
          nativePatients ! 1, nativeBackup ! 2]"
    by code_simp
  from second_run_issues_nothing[OF a b c d i e'] a b c d i e f g show ?thesis by blast
qed
end
